theory Spec2Isabelle
  imports Complex_Main "HOL-Library.Sublist" "HOL-Library.Product_Lexorder"
    "HOL-Library.List_Lexorder"
begin

section \<open>Strings\<close>

text \<open>
  A Python \<^verbatim>\<open>str\<close> is a sequence of Unicode code points. It is modelled as a list
  of natural numbers (the code points), so that \<^verbatim>\<open>len\<close> is \<^const>\<open>length\<close> and slicing is
  \<^const>\<open>take\<close> and \<^const>\<open>drop\<close>. ASCII literals of the source are written with \<open>str\<close>.
\<close>

type_synonym ustr = "nat list"

definition str :: "string \<Rightarrow> ustr" where
  "str cs = map of_char cs"

text \<open>\<^verbatim>\<open>x in s\<close> on strings: \<open>x\<close> occurs as a contiguous substring of \<open>s\<close>.\<close>

fun contains :: "ustr \<Rightarrow> ustr \<Rightarrow> bool" where
  "contains [] x = (x = [])"
| "contains (c # s) x = (prefix x (c # s) \<or> contains s x)"

section \<open>Console output, network and clock as an event trace\<close>

text \<open>
  The scraper talks to the network, sleeps and prints. All three are recorded, in program
  order, in a trace of events that every effectful function threads through.
\<close>

datatype exn =
  ConnectionError | Timeout | HTTPError | ValueError | UnicodeEncodeError | OtherException
  | KeyboardInterrupt


datatype log =
    WarnContentType ustr ustr
  | ErrorFetchFailed ustr int int exn
  | InfoRetrying real
  | ErrorGivingUp ustr
  | Saved ustr
  | WarnNoData
  | SuccessWritten ustr

datatype event = Get ustr int | Sleep real | Print log




section \<open>scrap.py: configuration\<close>

definition SAVE_DIR :: ustr where "SAVE_DIR = str ''articles''"
definition DELAY_BETWEEN_REQUESTS :: real where "DELAY_BETWEEN_REQUESTS = 2.0"
definition MAX_RETRIES :: int where "MAX_RETRIES = 3"
definition REQUEST_TIMEOUT :: int where "REQUEST_TIMEOUT = 15"

section \<open>scrap.py: fetch_html\<close>








section \<open>Python string operations\<close>

text \<open>
  \<^verbatim>\<open>str.isspace\<close>, which is also what \<^verbatim>\<open>\s\<close> matches in a \<^verbatim>\<open>str\<close> pattern and what
  \<^verbatim>\<open>strip()\<close> and \<^verbatim>\<open>split()\<close> remove: the ASCII controls 9 to 13 and 28 to 31, the
  space, U+0085, U+00A0, U+1680, U+2000 to U+200A, U+2028, U+2029, U+202F, U+205F, U+3000.
\<close>

definition is_space :: "nat \<Rightarrow> bool" where
  "is_space c =
     ((9 \<le> c \<and> c \<le> 13) \<or> (28 \<le> c \<and> c \<le> 32) \<or> c = 133 \<or> c = 160 \<or> c = 5760
      \<or> (8192 \<le> c \<and> c \<le> 8202) \<or> c = 8232 \<or> c = 8233 \<or> c = 8239 \<or> c = 8287
      \<or> c = 12288)"

definition rstrip_by :: "(nat \<Rightarrow> bool) \<Rightarrow> ustr \<Rightarrow> ustr" where
  "rstrip_by p s = rev (dropWhile p (rev s))"

text \<open>\<^verbatim>\<open>s.strip()\<close>\<close>

definition strip :: "ustr \<Rightarrow> ustr" where
  "strip s = rstrip_by is_space (dropWhile is_space s)"

text \<open>\<^verbatim>\<open>s.split(sep)\<close> for a one-character separator: never the empty list.\<close>

fun split_on :: "nat \<Rightarrow> ustr \<Rightarrow> ustr list" where
  "split_on sep [] = [[]]"
| "split_on sep (c # s) =
     (if c = sep then [] # split_on sep s
      else (case split_on sep s of [] \<Rightarrow> [[c]] | w # ws \<Rightarrow> (c # w) # ws))"

text \<open>\<^verbatim>\<open>s.split()\<close>: the maximal runs of non-whitespace characters.\<close>

function split_ws :: "ustr \<Rightarrow> ustr list" where
  "split_ws s =
     (case dropWhile is_space s of
        [] \<Rightarrow> []
      | c # r \<Rightarrow> takeWhile (\<lambda>x. \<not> is_space x) (c # r)
                 # split_ws (dropWhile (\<lambda>x. \<not> is_space x) r))"
  by pat_completeness auto
termination
proof (relation "measure length")
  show "wf (measure length)" by simp
next
  fix s :: ustr and c r
  assume a: "dropWhile is_space s = c # r"
  have "length (dropWhile (\<lambda>x. \<not> is_space x) r) \<le> length r"
    by (rule length_dropWhile_le)
  moreover have "length (c # r) \<le> length s"
    using length_dropWhile_le [of is_space s] a by simp
  ultimately show "(dropWhile (\<lambda>x. \<not> is_space x) r, s) \<in> measure length"
    by simp
qed

text \<open>\<^verbatim>\<open>str(n)\<close> for a non-negative integer: its decimal digits.\<close>

fun dec :: "nat \<Rightarrow> ustr" where
  "dec n = (if n < 10 then [48 + n] else dec (n div 10) @ [48 + n mod 10])"

declare dec.simps [simp del]
declare split_ws.simps [simp del]

section \<open>scrap.py: safe_filename\<close>

text \<open>\<^verbatim>\<open>re.sub(r"\s+", "_", s)\<close>: every maximal run of whitespace becomes one underscore.\<close>

function sub_ws_underscore :: "ustr \<Rightarrow> ustr" where
  "sub_ws_underscore [] = []"
| "sub_ws_underscore (c # s) =
     (if is_space c then 95 # sub_ws_underscore (dropWhile is_space s)
      else c # sub_ws_underscore s)"
  by pat_completeness auto
termination
proof (relation "measure length")
  show "wf (measure length)" by simp
next
  fix c :: nat and s :: ustr
  show "(dropWhile is_space s, c # s) \<in> measure length"
    using length_dropWhile_le [of is_space s] by simp
next
  fix c :: nat and s :: ustr
  show "(s, c # s) \<in> measure length" by simp
qed

text \<open>The characters that \<^verbatim>\<open>[^A-Za-z0-9_\-\.]\<close> does not match.\<close>

definition safe_char :: "nat \<Rightarrow> bool" where
  "safe_char c =
     ((65 \<le> c \<and> c \<le> 90) \<or> (97 \<le> c \<and> c \<le> 122) \<or> (48 \<le> c \<and> c \<le> 57)
      \<or> c = 95 \<or> c = 45 \<or> c = 46)"

definition safe_filename :: "ustr \<Rightarrow> nat \<Rightarrow> ustr" where
  "safe_filename s max_len =
     (let s1 = strip s;
          s2 = sub_ws_underscore s1;
          s3 = filter safe_char s2;
          s4 = (if length s3 > max_len then take max_len s3 else s3)
      in if s4 = [] then str ''article'' else s4)"

section \<open>scrap.py: save_article_to_txt\<close>

text \<open>
  The file system is a map from paths to file contents; \<^verbatim>\<open>os.path.exists\<close> is
  membership in its domain. Paths are joined as on POSIX.
\<close>

type_synonym files = "ustr \<rightharpoonup> ustr"

definition path_join :: "ustr \<Rightarrow> ustr \<Rightarrow> ustr" where
  "path_join a b =
     (if prefix [47] b then b
      else if a = [] \<or> last a = 47 then a @ b
      else a @ [47] @ b)"

text \<open>\<^verbatim>\<open>os.path.basename\<close>: what follows the last slash.\<close>

definition basename :: "ustr \<Rightarrow> ustr" where
  "basename p = last (split_on 47 p)"

text \<open>
  \<^verbatim>\<open>urlparse(url).path\<close> belongs to the standard library and is a parameter \<open>url_path\<close>
  of the model; \<open>None\<close> stands for the \<open>ValueError\<close> that \<^verbatim>\<open>urlparse\<close> raises on a
  malformed URL.
\<close>

definition file_base :: "ustr \<Rightarrow> ustr \<Rightarrow> ustr" where
  "file_base path title =
     (let slug0 = last (split_on 47 (rstrip_by (\<lambda>c. c = 47) path));
          slug = (if slug0 = [] then str ''article'' else slug0)
      in strip (slug @ str ''_'' @ take 60 title))"

text \<open>
  The loop \<^verbatim>\<open>while os.path.exists(filepath)\<close>. Nothing in the code bounds it, so it is
  a partial function: \<open>None\<close> is the loop that never ends.
\<close>

partial_function (option) free_path :: "files \<Rightarrow> ustr \<Rightarrow> ustr \<Rightarrow> nat \<Rightarrow> ustr option" where
  "free_path fs base filepath count =
     (if fs filepath \<noteq> None then
        free_path fs base
          (path_join SAVE_DIR (safe_filename base 120 @ str ''_'' @ dec count @ str ''.txt''))
          (count + 1)
      else Some filepath)"

text \<open>
  The file is opened with \<^verbatim>\<open>encoding="utf-8"\<close>. A string can be encoded unless it holds
  a surrogate code point (U+D800 to U+DFFF); \<^verbatim>\<open>f.write\<close> raises \<open>UnicodeEncodeError\<close> on
  a string that cannot.
\<close>

definition encodable :: "ustr \<Rightarrow> bool" where
  "encodable s = list_all (\<lambda>c. \<not> (55296 \<le> c \<and> c \<le> 57343)) s"

text \<open>The arguments of the four \<^verbatim>\<open>f.write\<close> calls, in order.\<close>

definition artifact_pieces :: "ustr \<Rightarrow> ustr \<Rightarrow> ustr \<Rightarrow> ustr list" where
  "artifact_pieces title url content =
     [str ''Source: '' @ url @ [10],
      str ''Title: '' @ title @ [10],
      replicate 80 61 @ [10, 10],
      content]"

text \<open>
  The writes in order: \<open>Inr\<close> is the text of the file when all of them succeed, \<open>Inl\<close>
  what the earlier writes have put into the file when one raises.
\<close>

fun write_pieces :: "ustr list \<Rightarrow> ustr \<Rightarrow> ustr + ustr" where
  "write_pieces [] out = Inr out"
| "write_pieces (p # ps) out =
     (if encodable p then write_pieces ps (out @ p) else Inl out)"

text \<open>What the four \<^verbatim>\<open>f.write\<close> calls put into the file when none of them raises.\<close>

definition artifact_text :: "ustr \<Rightarrow> ustr \<Rightarrow> ustr \<Rightarrow> ustr" where
  "artifact_text title url content =
     (str ''Source: '' @ url @ [10])
     @ (str ''Title: '' @ title @ [10])
     @ (replicate 80 61 @ [10, 10])
     @ content"

text \<open>
  The result is \<open>None\<close> when the collision loop does not end. Otherwise it is the
  exception raised or the normal return, the file system afterwards, and what was
  printed. \<^verbatim>\<open>urlparse\<close> raises before anything is written. A write that raises leaves
  the file, which \<^verbatim>\<open>open\<close> has created, with the text of the writes before it, and
  \<^verbatim>\<open>[SAVED]\<close> is not printed.
\<close>

definition save_article_to_txt ::
  "(ustr \<Rightarrow> ustr option) \<Rightarrow> files \<Rightarrow> ustr \<Rightarrow> ustr \<Rightarrow> ustr
     \<Rightarrow> ((exn + unit) \<times> files \<times> event list) option" where
  "save_article_to_txt url_path fs title url content =
     (case url_path url of
        None \<Rightarrow> Some (Inl ValueError, fs, [])
      | Some path \<Rightarrow>
          (let base = file_base path title;
               filename = safe_filename base 120 @ str ''.txt'';
               filepath = path_join SAVE_DIR filename
           in case free_path fs base filepath 1 of
                None \<Rightarrow> None
              | Some filepath' \<Rightarrow>
                  (case write_pieces (artifact_pieces title url content) [] of
                     Inl partial \<Rightarrow>
                       Some (Inl UnicodeEncodeError, fs(filepath' \<mapsto> partial), [])
                   | Inr full \<Rightarrow>
                       Some (Inr (), fs(filepath' \<mapsto> full),
                             [Print (Saved (basename filepath'))]))))"

text \<open>
  A crawl saves one article after the other into the same directory, as
  \<^verbatim>\<open>scrape_articles\<close> does for the links that yield content; an exception ends the
  crawl. An article is the triple (title, url, content).
\<close>

fun save_all ::
  "(ustr \<Rightarrow> ustr option) \<Rightarrow> files \<Rightarrow> (ustr \<times> ustr \<times> ustr) list
     \<Rightarrow> ((exn + unit) \<times> files \<times> event list) option" where
  "save_all url_path fs [] = Some (Inr (), fs, [])"
| "save_all url_path fs ((title, url, content) # rest) =
     (case save_article_to_txt url_path fs title url content of
        None \<Rightarrow> None
      | Some (Inl e, fs', printed) \<Rightarrow> Some (Inl e, fs', printed)
      | Some (Inr u, fs', printed) \<Rightarrow>
          (case save_all url_path fs' rest of
             None \<Rightarrow> None
           | Some (r, fs'', printed') \<Rightarrow> Some (r, fs'', printed @ printed')))"

text \<open>
  The names the writer tries for a sanitised base \<open>b\<close>: number 0 is \<open>b.txt\<close>, number
  \<open>k > 0\<close> is \<open>b_k.txt\<close>, all in the save directory.
\<close>

definition numbered :: "ustr \<Rightarrow> nat \<Rightarrow> ustr" where
  "numbered b k =
     str ''articles/'' @ b @ (if k = 0 then [] else str ''_'' @ dec k) @ str ''.txt''"

section \<open>The parsed document\<close>

text \<open>
  \<^verbatim>\<open>BeautifulSoup(html, "lxml")\<close> turns a page into a tree. The tree is modelled as a
  datatype: a tag with its name, its attributes and its children; a text string; and
  \<open>Hidden\<close> for the strings that \<^verbatim>\<open>get_text\<close> leaves out (comments, declarations).
  The parser itself, \<^verbatim>\<open>urljoin\<close> and the Unicode tables behind \<^verbatim>\<open>str.lower\<close> are
  libraries; they are the fields of the record \<open>lib\<close> that the functions take as their
  first argument. \<open>urljoin\<close> gives \<open>None\<close> where the library raises \<open>ValueError\<close>.
\<close>

datatype node = Tag ustr "(ustr \<times> ustr) list" "node list" | Str ustr | Hidden ustr

record lib =
  parse_html :: "ustr \<Rightarrow> node"
  urljoin :: "ustr \<Rightarrow> ustr \<Rightarrow> ustr option"
  unicode_lower :: "ustr \<Rightarrow> ustr"

text \<open>Everything below a node, in document order (\<^verbatim>\<open>.descendants\<close>).\<close>

fun descendants :: "node \<Rightarrow> node list" where
  "descendants (Tag name attrs kids) = concat (map (\<lambda>k. k # descendants k) kids)"
| "descendants (Str s) = []"
| "descendants (Hidden s) = []"

definition find_all :: "(node \<Rightarrow> bool) \<Rightarrow> node \<Rightarrow> node list" where
  "find_all p n = filter p (descendants n)"

definition find_first :: "(node \<Rightarrow> bool) \<Rightarrow> node \<Rightarrow> node option" where
  "find_first p n = (case find_all p n of [] \<Rightarrow> None | x # _ \<Rightarrow> Some x)"

fun is_tag :: "ustr list \<Rightarrow> node \<Rightarrow> bool" where
  "is_tag names (Tag name attrs kids) = (name \<in> set names)"
| "is_tag names _ = False"

fun attr :: "ustr \<Rightarrow> node \<Rightarrow> ustr option" where
  "attr k (Tag name attrs kids) = map_of attrs k"
| "attr k _ = None"

text \<open>\<^verbatim>\<open>sep.join(parts)\<close>\<close>

fun join :: "ustr \<Rightarrow> ustr list \<Rightarrow> ustr" where
  "join sep [] = []"
| "join sep [x] = x"
| "join sep (x # y # ys) = x @ sep @ join sep (y # ys)"

text \<open>
  Matching a tag against \<^verbatim>\<open>class_=v\<close>: the class attribute is a list of
  whitespace-separated tokens, and the tag matches when one token is \<open>v\<close> or when the
  tokens joined by single spaces are \<open>v\<close>.
\<close>

definition has_class :: "ustr \<Rightarrow> node \<Rightarrow> bool" where
  "has_class v n =
     (case attr (str ''class'') n of
        None \<Rightarrow> False
      | Some val \<Rightarrow> v \<in> set (split_ws val) \<or> join (str '' '') (split_ws val) = v)"

text \<open>A selector \<^verbatim>\<open>(name, {"class": v})\<close> or \<^verbatim>\<open>(name, {})\<close>.\<close>

type_synonym selector = "ustr \<times> ustr option"

fun matches :: "selector \<Rightarrow> node \<Rightarrow> bool" where
  "matches (name, None) n = is_tag [name] n"
| "matches (name, Some v) n = (is_tag [name] n \<and> has_class v n)"

text \<open>The text strings below a node, in document order.\<close>

fun strings :: "node \<Rightarrow> ustr list" where
  "strings (Tag name attrs kids) = concat (map strings kids)"
| "strings (Str s) = [s]"
| "strings (Hidden s) = []"

text \<open>\<^verbatim>\<open>node.get_text(separator=sep, strip=True)\<close>\<close>

definition get_text :: "ustr \<Rightarrow> node \<Rightarrow> ustr" where
  "get_text sep n = join sep (filter (\<lambda>s. s \<noteq> []) (map strip (strings n)))"

text \<open>
  \<^verbatim>\<open>tag.string\<close>: the only child when it is a string, the \<^verbatim>\<open>.string\<close> of the only child
  when it is a tag, and \<open>None\<close> otherwise.
\<close>

fun dot_string :: "node \<Rightarrow> ustr option" where
  "dot_string (Tag name attrs [k]) = dot_string k"
| "dot_string (Tag name attrs kids) = None"
| "dot_string (Str s) = Some s"
| "dot_string (Hidden s) = Some s"

section \<open>scrap.py: extract_article_links\<close>

definition ascii_lower :: "nat \<Rightarrow> nat" where
  "ascii_lower c = (if 65 \<le> c \<and> c \<le> 90 then c + 32 else c)"

text \<open>
  \<^verbatim>\<open>s.lower()\<close>. On a string of ASCII characters it maps A to Z to a to z; on any other
  string the result comes from the Unicode tables of the library.
\<close>

definition lower :: "lib \<Rightarrow> ustr \<Rightarrow> ustr" where
  "lower L s = (if list_all (\<lambda>c. c < 128) s then map ascii_lower s else unicode_lower L s)"

text \<open>The first loop: one link for every matching \<^verbatim>\<open>h3\<close> that holds an anchor with an href.\<close>

fun primary_links :: "lib \<Rightarrow> ustr \<Rightarrow> node list \<Rightarrow> ustr list \<Rightarrow> exn + ustr list" where
  "primary_links L base_url [] links = Inr links"
| "primary_links L base_url (h3 # rest) links =
     (case find_first (\<lambda>n. is_tag [str ''a''] n \<and> attr (str ''href'') n \<noteq> None) h3 of
        None \<Rightarrow> primary_links L base_url rest links
      | Some a \<Rightarrow>
          (case urljoin L base_url (the (attr (str ''href'') a)) of
             None \<Rightarrow> Inl ValueError
           | Some full \<Rightarrow> primary_links L base_url rest (links @ [full])))"

definition non_article_markers :: "ustr list" where
  "non_article_markers = [str ''.pdf'', str ''.jpg'', str ''.png'', str ''#'', str ''?replytocom'']"

text \<open>
  The fallback loop over all anchors with an href. \<^verbatim>\<open>urljoin\<close> is only called when
  the href itself does not start with \<open>base_url\<close>, and then again for \<open>full\<close>.
\<close>

fun fallback_links :: "lib \<Rightarrow> ustr \<Rightarrow> node list \<Rightarrow> ustr list \<Rightarrow> exn + ustr list" where
  "fallback_links L base_url [] links = Inr links"
| "fallback_links L base_url (a # rest) links =
     (let href = the (attr (str ''href'') a)
      in if \<not> prefix base_url href \<and> urljoin L base_url href = None then Inl ValueError
         else if prefix base_url href \<or> prefix base_url (the (urljoin L base_url href)) then
           (case urljoin L base_url href of
              None \<Rightarrow> Inl ValueError
            | Some full \<Rightarrow>
                if list_ex (\<lambda>x. contains (lower L full) x) non_article_markers
                then fallback_links L base_url rest links
                else fallback_links L base_url rest (links @ [full]))
         else fallback_links L base_url rest links)"

text \<open>The links collected by the two rules, before deduplication.\<close>

definition candidate_links :: "lib \<Rightarrow> node \<Rightarrow> ustr \<Rightarrow> exn + ustr list" where
  "candidate_links L soup base_url =
     (case primary_links L base_url
             (find_all (\<lambda>n. is_tag [str ''h3''] n
                            \<and> has_class (str ''entry-title td-module-title'') n) soup) [] of
        Inl e \<Rightarrow> Inl e
      | Inr links \<Rightarrow>
          if links = [] then
            fallback_links L base_url
              (find_all (\<lambda>n. is_tag [str ''a''] n \<and> attr (str ''href'') n \<noteq> None) soup) []
          else Inr links)"

text \<open>The loop \<^verbatim>\<open>for l in links\<close> with the set \<open>seen\<close> and the list \<open>uniq_links\<close>.\<close>

fun dedup_loop :: "ustr list \<Rightarrow> ustr set \<Rightarrow> ustr list \<Rightarrow> ustr list" where
  "dedup_loop [] seen uniq_links = uniq_links"
| "dedup_loop (l # ls) seen uniq_links =
     (if l \<notin> seen then dedup_loop ls (insert l seen) (uniq_links @ [l])
      else dedup_loop ls seen uniq_links)"

definition extract_article_links :: "lib \<Rightarrow> ustr \<Rightarrow> ustr \<Rightarrow> exn + ustr list" where
  "extract_article_links L listing_html base_url =
     (case candidate_links L (parse_html L listing_html) base_url of
        Inl e \<Rightarrow> Inl e
      | Inr links \<Rightarrow> Inr (dedup_loop links {} []))"

section \<open>scrap.py: extract_article_content\<close>

definition title_selectors :: "selector list" where
  "title_selectors =
     [(str ''h1'', None),
      (str ''h1'', Some (str ''entry-title'')),
      (str ''h1'', Some (str ''td-page-title'')),
      (str ''h1'', Some (str ''post-title''))]"

definition content_selectors :: "selector list" where
  "content_selectors =
     [(str ''div'', Some (str ''tdb-block-inner td-fix-index'')),
      (str ''div'', Some (str ''td-post-content'')),
      (str ''div'', Some (str ''entry-content'')),
      (str ''div'', Some (str ''post-content'')),
      (str ''article'', None)]"

text \<open>The loop over the title selectors: the first one whose tag has text wins.\<close>

fun title_loop :: "node \<Rightarrow> selector list \<Rightarrow> ustr \<Rightarrow> ustr" where
  "title_loop soup [] title = title"
| "title_loop soup (sel # sels) title =
     (case find_first (matches sel) soup of
        None \<Rightarrow> title_loop soup sels title
      | Some tag \<Rightarrow>
          if get_text [] tag \<noteq> [] then get_text [] tag else title_loop soup sels title)"

definition bad_tags :: "ustr list" where
  "bad_tags = [str ''script'', str ''style'', str ''noscript'', str ''iframe'']"

text \<open>
  \<^verbatim>\<open>bad.decompose()\<close> for every script, style, noscript and iframe below a node: the
  node without them.
\<close>

fun strip_bad :: "node \<Rightarrow> node" where
  "strip_bad (Tag name attrs kids) =
     Tag name attrs (map strip_bad (filter (\<lambda>k. \<not> is_tag bad_tags k) kids))"
| "strip_bad (Str s) = Str s"
| "strip_bad (Hidden s) = Hidden s"

text \<open>
  The decomposition changes the document itself. \<open>update_first p f kids\<close> replaces, in a
  list of siblings, the first node in document order that satisfies \<open>p\<close> by its image
  under \<open>f\<close>, and says whether there was one.
\<close>

fun update_first :: "(node \<Rightarrow> bool) \<Rightarrow> (node \<Rightarrow> node) \<Rightarrow> node list \<Rightarrow> node list \<times> bool" where
  "update_first p f [] = ([], False)"
| "update_first p f (Str s # rest) =
     (case update_first p f rest of (rest', found) \<Rightarrow> (Str s # rest', found))"
| "update_first p f (Hidden s # rest) =
     (case update_first p f rest of (rest', found) \<Rightarrow> (Hidden s # rest', found))"
| "update_first p f (Tag name attrs kids # rest) =
     (if p (Tag name attrs kids) then (f (Tag name attrs kids) # rest, True)
      else (case update_first p f kids of
              (kids', True) \<Rightarrow> (Tag name attrs kids' # rest, True)
            | (kids', False) \<Rightarrow>
                (case update_first p f rest of
                   (rest', found) \<Rightarrow> (Tag name attrs kids # rest', found))))"

fun update_soup :: "(node \<Rightarrow> bool) \<Rightarrow> (node \<Rightarrow> node) \<Rightarrow> node \<Rightarrow> node" where
  "update_soup p f (Tag name attrs kids) = Tag name attrs (fst (update_first p f kids))"
| "update_soup p f n = n"

text \<open>
  The loop over the content selectors. It returns the accepted text (empty when no
  selector is accepted) and the document as the decompositions have left it.
\<close>

fun content_loop :: "node \<Rightarrow> selector list \<Rightarrow> ustr \<times> node" where
  "content_loop soup [] = ([], soup)"
| "content_loop soup (sel # sels) =
     (case find_first (matches sel) soup of
        None \<Rightarrow> content_loop soup sels
      | Some node \<Rightarrow>
          (let soup' = update_soup (matches sel) strip_bad soup;
               txt = get_text [10] (strip_bad node)
           in if txt \<noteq> [] \<and> length txt > 50 then (txt, soup')
              else content_loop soup' sels))"

text \<open>
  The candidates of the fallback: the pair (length, text) for every div, section and
  article below the body, in document order.
\<close>

definition candidates :: "node \<Rightarrow> (nat \<times> ustr) list" where
  "candidates body =
     map (\<lambda>d. (length (get_text [10] d), get_text [10] d))
       (find_all (is_tag [str ''div'', str ''section'', str ''article'']) body)"

text \<open>
  \<^verbatim>\<open>candidates.sort(reverse=True)\<close> sorts the pairs in descending order. Python compares
  tuples lexicographically and strings by code points, which is the order of
  \<^typ>\<open>nat \<times> nat list\<close> here; equal pairs cannot be told apart, so the stable descending
  sort is the reversed ascending sort.
\<close>

definition sort_reverse :: "(nat \<times> ustr) list \<Rightarrow> (nat \<times> ustr) list" where
  "sort_reverse cs = rev (sort cs)"

definition fallback_content :: "node \<Rightarrow> ustr" where
  "fallback_content soup =
     (case find_first (is_tag [str ''body'']) soup of
        None \<Rightarrow> []
      | Some body \<Rightarrow>
          (case sort_reverse (candidates body) of
             [] \<Rightarrow> []
           | (n, largest) # _ \<Rightarrow> if length largest > 100 then largest else []))"

text \<open>\<open>extract_article_content\<close> on the parsed page.\<close>

definition content_of_soup :: "node \<Rightarrow> ustr \<times> ustr" where
  "content_of_soup soup =
     (let title0 =
            (case find_first (is_tag [str ''title'']) soup of
               None \<Rightarrow> []
             | Some t \<Rightarrow>
                 (case dot_string t of
                    None \<Rightarrow> []
                  | Some s \<Rightarrow> if s \<noteq> [] then strip s else []));
          title = title_loop soup title_selectors title0;
          (content_text0, soup') = content_loop soup content_selectors;
          content_text = (if content_text0 = [] then fallback_content soup' else content_text0)
      in (if title = [] then str ''untitled'' else title, content_text))"

definition extract_article_content :: "lib \<Rightarrow> ustr \<Rightarrow> ustr \<times> ustr" where
  "extract_article_content L html = content_of_soup (parse_html L html)"

section \<open>excraction-features.py: save-to-csv\<close>

text \<open>
  A record of the dataset is a Python dict with string keys and values; the order of its
  keys matters for the header, so it is an association list. The serialisation of one
  row by the \<^verbatim>\<open>csv\<close> module is a parameter \<open>csv_row\<close>. \<^verbatim>\<open>DictWriter\<close> fills a missing key
  with the empty string and raises \<open>ValueError\<close> on a key that is not a field name; the
  rows before it have been written by then.
\<close>

type_synonym row = "(ustr \<times> ustr) list"

fun write_rows :: "(ustr list \<Rightarrow> ustr) \<Rightarrow> ustr list \<Rightarrow> row list \<Rightarrow> ustr \<Rightarrow> ustr + ustr" where
  "write_rows csv_row keys [] out = Inr out"
| "write_rows csv_row keys (r # rs) out =
     (if \<exists>k \<in> set (map fst r). k \<notin> set keys then Inl out
      else write_rows csv_row keys rs
             (out @ csv_row (map (\<lambda>k. case map_of r k of None \<Rightarrow> [] | Some v \<Rightarrow> v) keys)))"

definition save_to_csv ::
  "(ustr list \<Rightarrow> ustr) \<Rightarrow> files \<Rightarrow> row list \<Rightarrow> ustr \<Rightarrow> (exn + unit) \<times> files \<times> event list" where
  "save_to_csv csv_row fs data output_file =
     (case data of
        [] \<Rightarrow> (Inr (), fs, [Print WarnNoData])
      | first # _ \<Rightarrow>
          (let keys = map fst first
           in case write_rows csv_row keys data (csv_row keys) of
                Inl partial \<Rightarrow> (Inl ValueError, fs(output_file \<mapsto> partial), [])
              | Inr out \<Rightarrow>
                  (Inr (), fs(output_file \<mapsto> out), [Print (SuccessWritten output_file)])))"

section \<open>Regular expressions\<close>

text \<open>
  The patterns of \<^verbatim>\<open>excraction_features.py\<close> are run by Python's \<^verbatim>\<open>re\<close>, a backtracking
  matcher on strings of code points. Its character classes \<^verbatim>\<open>\d\<close> and \<^verbatim>\<open>\w\<close> and its
  case-insensitive comparison rest on the Unicode tables. On ASCII they are written out
  here; beyond ASCII they are the fields of the record \<open>unidata\<close>, a parameter of the
  model: \<open>u_digit c\<close> and \<open>u_word c\<close> say whether the non-ASCII character \<open>c\<close> is a
  decimal digit or a word character, and \<open>u_caseless p c\<close> whether \<open>c\<close> matches the
  lower-case ASCII letter \<open>p\<close> when case is ignored.
\<close>

record unidata =
  u_digit :: "nat \<Rightarrow> bool"
  u_word :: "nat \<Rightarrow> bool"
  u_caseless :: "nat \<Rightarrow> nat \<Rightarrow> bool"

definition is_digit :: "unidata \<Rightarrow> nat \<Rightarrow> bool" where
  "is_digit U c = ((48 \<le> c \<and> c \<le> 57) \<or> (128 \<le> c \<and> u_digit U c))"

definition is_word :: "unidata \<Rightarrow> nat \<Rightarrow> bool" where
  "is_word U c =
     ((48 \<le> c \<and> c \<le> 57) \<or> (65 \<le> c \<and> c \<le> 90) \<or> (97 \<le> c \<and> c \<le> 122) \<or> c = 95
      \<or> (128 \<le> c \<and> u_word U c))"

definition is_ascii_letter :: "nat \<Rightarrow> bool" where
  "is_ascii_letter c = ((65 \<le> c \<and> c \<le> 90) \<or> (97 \<le> c \<and> c \<le> 122))"

text \<open>
  A literal character \<open>p\<close> of a pattern compiled with \<^verbatim>\<open>re.IGNORECASE\<close> against the
  character \<open>c\<close> of the text. A character without case matches only itself.
\<close>

definition ci :: "unidata \<Rightarrow> nat \<Rightarrow> nat \<Rightarrow> bool" where
  "ci U p c =
     (if is_ascii_letter p then
        (if c < 128 then ascii_lower c = ascii_lower p else u_caseless U (ascii_lower p) c)
      else c = p)"

text \<open>
  A position in the text is a cursor: the character before the position (\<open>None\<close> at the
  start of the text) and the text from the position on.
\<close>

type_synonym cursor = "nat option \<times> ustr"

text \<open>
  The constructs that the patterns use: one character of a class, the empty pattern,
  sequence, alternation (left alternative first), the greedy and the lazy star of a
  character class, \<^verbatim>\<open>^\<close> with and without \<^verbatim>\<open>re.MULTILINE\<close> (\<open>Bol\<close> and \<open>Start\<close>), and the
  word boundary \<^verbatim>\<open>\b\<close> for a given class of word characters.
\<close>

datatype rx =
    Chr "nat \<Rightarrow> bool"
  | Eps
  | Seq rx rx
  | Alt rx rx
  | Star "nat \<Rightarrow> bool"
  | LazyStar "nat \<Rightarrow> bool"
  | Bol
  | Start
  | WordB "nat \<Rightarrow> bool"

text \<open>
  \<open>ends r cur\<close> lists the positions where a match of \<open>r\<close> that starts at \<open>cur\<close> can end,
  in the order in which the backtracking matcher tries them: the greedy star tries the
  longest run first, the lazy star the shortest.
\<close>

fun star :: "(nat \<Rightarrow> bool) \<Rightarrow> nat option \<Rightarrow> ustr \<Rightarrow> cursor list" where
  "star p prev [] = [(prev, [])]"
| "star p prev (c # cs) = (if p c then star p (Some c) cs @ [(prev, c # cs)] else [(prev, c # cs)])"

fun lazy_star :: "(nat \<Rightarrow> bool) \<Rightarrow> nat option \<Rightarrow> ustr \<Rightarrow> cursor list" where
  "lazy_star p prev [] = [(prev, [])]"
| "lazy_star p prev (c # cs) = (prev, c # cs) # (if p c then lazy_star p (Some c) cs else [])"

definition at_word :: "(nat \<Rightarrow> bool) \<Rightarrow> nat option \<Rightarrow> bool" where
  "at_word w x = (case x of None \<Rightarrow> False | Some c \<Rightarrow> w c)"

definition next_char :: "ustr \<Rightarrow> nat option" where
  "next_char rest = (case rest of [] \<Rightarrow> None | c # cs \<Rightarrow> Some c)"

fun ends :: "rx \<Rightarrow> cursor \<Rightarrow> cursor list" where
  "ends (Chr p) (prev, rest) =
     (case rest of [] \<Rightarrow> [] | c # cs \<Rightarrow> if p c then [(Some c, cs)] else [])"
| "ends Eps cur = [cur]"
| "ends (Seq a b) cur = concat (map (ends b) (ends a cur))"
| "ends (Alt a b) cur = ends a cur @ ends b cur"
| "ends (Star p) (prev, rest) = star p prev rest"
| "ends (LazyStar p) (prev, rest) = lazy_star p prev rest"
| "ends Bol (prev, rest) = (if prev = None \<or> prev = Some 10 then [(prev, rest)] else [])"
| "ends Start (prev, rest) = (if prev = None then [(prev, rest)] else [])"
| "ends (WordB w) (prev, rest) =
     (if at_word w prev \<noteq> at_word w (next_char rest) then [(prev, rest)] else [])"

text \<open>\<^verbatim>\<open>r?\<close> and \<^verbatim>\<open>[class]+\<close>, both greedy; sequences, alternatives and literal words.\<close>

definition Opt :: "rx \<Rightarrow> rx" where "Opt r = Alt r Eps"
definition Plus :: "(nat \<Rightarrow> bool) \<Rightarrow> rx" where "Plus p = Seq (Chr p) (Star p)"

fun seqs :: "rx list \<Rightarrow> rx" where
  "seqs [] = Eps"
| "seqs (r # rs) = Seq r (seqs rs)"

fun alts :: "rx \<Rightarrow> rx list \<Rightarrow> rx" where
  "alts r [] = r"
| "alts r (x # xs) = Alt r (alts x xs)"

definition lit :: "ustr \<Rightarrow> rx" where
  "lit w = seqs (map (\<lambda>p. Chr (\<lambda>c. c = p)) w)"

definition ilit :: "unidata \<Rightarrow> ustr \<Rightarrow> rx" where
  "ilit U w = seqs (map (\<lambda>p. Chr (ci U p)) w)"

text \<open>
  Every pattern of the program has at most one capturing group, outside any repetition.
  A pattern is the triple of what stands before the group, the group, and what stands
  after it. A match is the triple of the cursors where these three parts end; the first
  match in backtracking order is the head of \<open>match_at\<close>. \<open>groups\<close> gives
  \<^verbatim>\<open>(m.group(0), m.group(1))\<close>.
\<close>

type_synonym pattern = "rx \<times> rx \<times> rx"

definition between :: "cursor \<Rightarrow> cursor \<Rightarrow> ustr" where
  "between a b = take (length (snd a) - length (snd b)) (snd a)"

fun match_at :: "pattern \<Rightarrow> cursor \<Rightarrow> (cursor \<times> cursor \<times> cursor) list" where
  "match_at (pre, grp, suf) cur =
     concat (map (\<lambda>a. concat (map (\<lambda>b. map (\<lambda>c. (a, b, c)) (ends suf b)) (ends grp a)))
               (ends pre cur))"

definition groups :: "cursor \<Rightarrow> cursor \<times> cursor \<times> cursor \<Rightarrow> ustr \<times> ustr" where
  "groups cur m = (case m of (a, b, c) \<Rightarrow> (between cur c, between a b))"

text \<open>
  \<^verbatim>\<open>re.match\<close> tries the start of the string only; \<^verbatim>\<open>re.search\<close> tries every position
  from left to right, the end of the string included.
\<close>

definition re_match :: "pattern \<Rightarrow> ustr \<Rightarrow> (ustr \<times> ustr) option" where
  "re_match pat s =
     (case match_at pat (None, s) of [] \<Rightarrow> None | m # _ \<Rightarrow> Some (groups (None, s) m))"

fun search_from :: "pattern \<Rightarrow> nat option \<Rightarrow> ustr \<Rightarrow> (ustr \<times> ustr) option" where
  "search_from pat prev [] =
     (case match_at pat (prev, []) of [] \<Rightarrow> None | m # _ \<Rightarrow> Some (groups (prev, []) m))"
| "search_from pat prev (c # cs) =
     (case match_at pat (prev, c # cs) of
        [] \<Rightarrow> search_from pat (Some c) cs
      | m # _ \<Rightarrow> Some (groups (prev, c # cs) m))"

definition re_search :: "pattern \<Rightarrow> ustr \<Rightarrow> (ustr \<times> ustr) option" where
  "re_search pat s = search_from pat None s"

section \<open>excraction-features.py: the patterns\<close>

text \<open>\<^verbatim>\<open>r"^Source:\s*(https?://[^\s]+)"\<close> with \<^verbatim>\<open>re.MULTILINE\<close>\<close>

definition source_rx :: pattern where
  "source_rx =
     (seqs [Bol, lit (str ''Source:''), Star is_space],
      seqs [lit (str ''http''), Opt (Chr (\<lambda>c. c = 115)), lit (str ''://''),
            Plus (\<lambda>c. \<not> is_space c)],
      Eps)"

text \<open>\<^verbatim>\<open>r"Date:\s*([\w\s,]+)"\<close>\<close>

definition date_rx :: "unidata \<Rightarrow> pattern" where
  "date_rx U =
     (seqs [lit (str ''Date:''), Star is_space],
      Plus (\<lambda>c. is_word U c \<or> is_space c \<or> c = 44),
      Eps)"

text \<open>\<^verbatim>\<open>r"\b(?:January|...|December)\s+\d{1,2},\s+\d{4}\b"\<close>\<close>

definition body_date_rx :: "unidata \<Rightarrow> pattern" where
  "body_date_rx U =
     (seqs [WordB (is_word U),
            alts (lit (str ''January''))
              [lit (str ''February''), lit (str ''March''), lit (str ''April''),
               lit (str ''May''), lit (str ''June''), lit (str ''July''),
               lit (str ''August''), lit (str ''September''), lit (str ''October''),
               lit (str ''November''), lit (str ''December'')],
            Plus is_space,
            Chr (is_digit U), Opt (Chr (is_digit U)),
            lit (str '',''),
            Plus is_space,
            Chr (is_digit U), Chr (is_digit U), Chr (is_digit U), Chr (is_digit U),
            WordB (is_word U)],
      Eps, Eps)"

text \<open>\<^verbatim>\<open>r"\bfounded in (\d{4})"\<close> with \<^verbatim>\<open>re.IGNORECASE\<close>\<close>

definition founded_rx :: "unidata \<Rightarrow> pattern" where
  "founded_rx U =
     (seqs [WordB (is_word U), ilit U (str ''founded in '')],
      seqs [Chr (is_digit U), Chr (is_digit U), Chr (is_digit U), Chr (is_digit U)],
      Eps)"

text \<open>
  \<^verbatim>\<open>r"([\<euro>$\<pounds>]\s?\d+(?:[\.,]?\d+)?(?:\s?(?:million|billion|m|k|bn))?)"\<close> with
  \<^verbatim>\<open>re.IGNORECASE\<close>; the euro sign is U+20AC and the pound sign U+00A3.
\<close>

definition amount_rx :: "unidata \<Rightarrow> pattern" where
  "amount_rx U =
     (Eps,
      seqs [Chr (\<lambda>c. c = 8364 \<or> c = 36 \<or> c = 163),
            Opt (Chr is_space),
            Plus (is_digit U),
            Opt (seqs [Opt (Chr (\<lambda>c. c = 46 \<or> c = 44)), Plus (is_digit U)]),
            Opt (seqs [Opt (Chr is_space),
                       alts (ilit U (str ''million''))
                         [ilit U (str ''billion''), ilit U (str ''m''), ilit U (str ''k''),
                          ilit U (str ''bn'')]])],
      Eps)"

text \<open>\<^verbatim>\<open>rf"\b{ftype} funding\b"\<close> with \<^verbatim>\<open>re.IGNORECASE\<close>\<close>

definition funding_rx :: "unidata \<Rightarrow> ustr \<Rightarrow> pattern" where
  "funding_rx U ftype =
     (seqs [WordB (is_word U), ilit U (ftype @ str '' funding''), WordB (is_word U)], Eps, Eps)"

text \<open>
  \<^verbatim>\<open>r"^(.*?)(?:,| has| announced| raises| raised| secured)"\<close> with \<^verbatim>\<open>re.IGNORECASE\<close>;
  the dot matches everything but the newline.
\<close>

definition name_rx :: "unidata \<Rightarrow> pattern" where
  "name_rx U =
     (Start,
      LazyStar (\<lambda>c. c \<noteq> 10),
      alts (lit (str '',''))
        [ilit U (str '' has''), ilit U (str '' announced''), ilit U (str '' raises''),
         ilit U (str '' raised''), ilit U (str '' secured'')])"

definition funding_types :: "ustr list" where
  "funding_types =
     [str ''seed'', str ''pre-seed'', str ''series a'', str ''series b'', str ''series c'',
      str ''venture'', str ''angel'', str ''growth'', str ''bridge'']"

section \<open>excraction-features.py: extract_info_from_text\<close>

text \<open>
  \<^verbatim>\<open>s.title()\<close> on ASCII strings, which is all the program applies it to (the members of
  \<open>funding_types\<close>): a letter becomes upper case after a character that is not a letter
  and lower case after a letter.
\<close>

fun title_from :: "bool \<Rightarrow> ustr \<Rightarrow> ustr" where
  "title_from prev_cased [] = []"
| "title_from prev_cased (c # cs) =
     (if is_ascii_letter c then
        (if prev_cased then ascii_lower c else (if 97 \<le> c \<and> c \<le> 122 then c - 32 else c))
          # title_from True cs
      else c # title_from False cs)"

definition str_title :: "ustr \<Rightarrow> ustr" where
  "str_title s = title_from False s"

text \<open>
  \<^verbatim>\<open>s.splitlines()\<close>: the line boundaries are \<^verbatim>\<open>\n\<close>, \<^verbatim>\<open>\r\<close>, \<^verbatim>\<open>\r\n\<close>, \<^verbatim>\<open>\v\<close>, \<^verbatim>\<open>\f\<close>,
  the separators 28 to 30, U+0085, U+2028 and U+2029; a boundary at the very end adds
  no empty line.
\<close>

definition is_linebreak :: "nat \<Rightarrow> bool" where
  "is_linebreak c =
     ((10 \<le> c \<and> c \<le> 13) \<or> (28 \<le> c \<and> c \<le> 30) \<or> c = 133 \<or> c = 8232 \<or> c = 8233)"

function splitlines :: "ustr \<Rightarrow> ustr list" where
  "splitlines s =
     (if s = [] then []
      else (case dropWhile (\<lambda>c. \<not> is_linebreak c) s of
              [] \<Rightarrow> [s]
            | c # r \<Rightarrow>
                takeWhile (\<lambda>c. \<not> is_linebreak c) s
                  # splitlines (if c = 13 \<and> prefix [10] r then tl r else r)))"
  by pat_completeness auto
termination
proof (relation "measure length")
  show "wf (measure length)" by simp
next
  fix s :: ustr and c r
  assume a: "dropWhile (\<lambda>c. \<not> is_linebreak c) s = c # r"
  have "length (c # r) \<le> length s"
    using length_dropWhile_le [of "\<lambda>c. \<not> is_linebreak c" s] a by simp
  moreover have "length (tl r) \<le> length r" by simp
  ultimately show "((if c = 13 \<and> prefix [10] r then tl r else r), s) \<in> measure length"
    by auto
qed

declare splitlines.simps [simp del]

text \<open>The dict \<open>info\<close>: its six keys are fixed, so it is a record.\<close>

record funding_info =
  company_name :: ustr
  funding_amount :: ustr
  funding_type :: ustr
  article_date :: ustr
  company_since :: ustr
  article_url :: ustr

text \<open>The loop over \<open>funding_types\<close>: the first type whose pattern is found wins.\<close>

fun funding_type_loop :: "unidata \<Rightarrow> ustr \<Rightarrow> ustr list \<Rightarrow> ustr \<Rightarrow> ustr" where
  "funding_type_loop U text [] current = current"
| "funding_type_loop U text (ftype # rest) current =
     (if re_search (funding_rx U ftype) text \<noteq> None then str_title ftype
      else funding_type_loop U text rest current)"

text \<open>The loop over \<^verbatim>\<open>lines[2:6]\<close>: the first line with an accepted capture wins.\<close>

fun company_name_loop :: "unidata \<Rightarrow> ustr list \<Rightarrow> ustr \<Rightarrow> ustr" where
  "company_name_loop U [] current = current"
| "company_name_loop U (line # rest) current =
     (case re_match (name_rx U) line of
        None \<Rightarrow> company_name_loop U rest current
      | Some (g0, g1) \<Rightarrow>
          if 2 \<le> length (split_ws g1) \<and> length (split_ws g1) \<le> 5 then strip g1
          else company_name_loop U rest current)"

definition extract_info_from_text :: "unidata \<Rightarrow> ustr \<Rightarrow> funding_info" where
  "extract_info_from_text U text =
     \<lparr>company_name =
        company_name_loop U (take 4 (drop 2 (splitlines (strip text)))) (str ''undefined''),
      funding_amount =
        (case re_search (amount_rx U) text of
           None \<Rightarrow> str ''undefined''
         | Some (g0, g1) \<Rightarrow> map (\<lambda>c. if c = 160 then 32 else c) g1),
      funding_type = funding_type_loop U text funding_types (str ''undefined''),
      article_date =
        (case re_search (date_rx U) text of
           Some (g0, g1) \<Rightarrow> g1
         | None \<Rightarrow>
             (case re_search (body_date_rx U) text of
                Some (g0, g1) \<Rightarrow> g0
              | None \<Rightarrow> str ''undefined'')),
      company_since =
        (case re_search (founded_rx U) text of
           None \<Rightarrow> str ''undefined''
         | Some (g0, g1) \<Rightarrow> g1),
      article_url =
        (case re_search source_rx text of
           None \<Rightarrow> str ''undefined''
         | Some (g0, g1) \<Rightarrow> g1)\<rparr>"

section \<open>Notions used to state the properties\<close>

text \<open>
  The elements of \<open>ls\<close> that occur neither in \<open>pre\<close> nor earlier in \<open>ls\<close>, in the order
  of \<open>ls\<close>.
\<close>

fun firsts :: "'a list \<Rightarrow> 'a list \<Rightarrow> 'a list" where
  "firsts pre [] = []"
| "firsts pre (x # xs) =
     (if x \<in> set pre then firsts (pre @ [x]) xs else x # firsts (pre @ [x]) xs)"

text \<open>
  Following the words of the specification: two URLs are same-origin when they agree on
  scheme, host and port, that is, on everything before the first slash of the path.
\<close>

definition origin :: "ustr \<Rightarrow> ustr" where
  "origin u = join (str ''/'') (take 3 (split_on 47 u))"

definition same_origin :: "ustr \<Rightarrow> ustr \<Rightarrow> bool" where
  "same_origin a b = (origin a = origin b)"

text \<open>
  A listing page with three anchors and no heading, and a library whose \<^verbatim>\<open>urljoin\<close>
  returns an absolute href unchanged, as the real one does for the hrefs of this page.
\<close>

definition listing_three_anchors :: node where
  "listing_three_anchors =
     Tag (str ''[document]'') []
       [Tag (str ''html'') []
          [Tag (str ''body'') []
             [Tag (str ''a'') [(str ''href'', str ''https://x.test/news/a'')] [Str (str ''A'')],
              Tag (str ''a'') [(str ''href'', str ''https://x.test/about'')] [Str (str ''B'')],
              Tag (str ''a'') [(str ''href'', str ''https://x.test/news/b.pdf'')] [Str (str ''C'')]]]]"

definition lib_three_anchors :: lib where
  "lib_three_anchors =
     \<lparr>parse_html = (\<lambda>html. listing_three_anchors),
      urljoin = (\<lambda>base href. Some href),
      unicode_lower = (\<lambda>s. s)\<rparr>"

text \<open>
  Following the words of the specification for the content fallback: the single longest
  text, ties on the length broken in favour of the text met first.
\<close>

fun first_longest :: "ustr list \<Rightarrow> ustr" where
  "first_longest [] = []"
| "first_longest (t # ts) =
     (if ts \<noteq> [] \<and> length (first_longest ts) > length t then first_longest ts else t)"

text \<open>
  A page without any of the named containers whose body holds two blocks of 101
  characters each, the first of the letter a and the second of the letter b:
  \<^verbatim>\<open><html><body><div>aa...a</div><div>bb...b</div></body></html>\<close>.
\<close>

definition page_two_blocks :: node where
  "page_two_blocks =
     Tag (str ''[document]'') []
       [Tag (str ''html'') []
          [Tag (str ''body'') []
             [Tag (str ''div'') [] [Str (replicate 101 97)],
              Tag (str ''div'') [] [Str (replicate 101 98)]]]]"

definition lib_two_blocks :: lib where
  "lib_two_blocks =
     \<lparr>parse_html = (\<lambda>html. page_two_blocks),
      urljoin = (\<lambda>base href. Some href),
      unicode_lower = (\<lambda>s. s)\<rparr>"

text \<open>
  All the positions of a text, from left to right, and whether a pattern has a match
  that starts at one of them.
\<close>

fun cursors :: "nat option \<Rightarrow> ustr \<Rightarrow> cursor list" where
  "cursors prev [] = [(prev, [])]"
| "cursors prev (c # cs) = (prev, c # cs) # cursors (Some c) cs"

definition occurs :: "pattern \<Rightarrow> ustr \<Rightarrow> bool" where
  "occurs pat s = list_ex (\<lambda>cur. match_at pat cur \<noteq> []) (cursors None s)"

text \<open>The artifact of the first end-to-end scenario of the specification.\<close>

definition scenario_text :: ustr where
  "scenario_text = str ''Source: https://x.test/a'' @ [10] @ str ''Title: T'' @ [10]
     @ str ''===='' @ [10, 10]
     @ str ''Acme Corp raises $5 million in Series A funding, founded in 2019.''"

text \<open>Unicode tables that know no character beyond ASCII.\<close>

definition ascii_only :: unidata where
  "ascii_only = \<lparr>u_digit = (\<lambda>c. False), u_word = (\<lambda>c. False), u_caseless = (\<lambda>p c. False)\<rparr>"

text \<open>A text of three lines in which no pattern occurs.\<close>

definition plain_text :: ustr where
  "plain_text = str ''Notes'' @ [10] @ str ''None'' @ [10] @ str ''a b c d e f, g''"

section \<open>Properties of fetch_html\<close>




section \<open>Properties of the artifact writer\<close>

lemma dec_nonempty: "dec n \<noteq> []"
  by (subst dec.simps) simp

lemma last_dec: "last (dec n) = 48 + n mod 10"
  by (subst dec.simps) simp

lemma butlast_dec: "butlast (dec n) = (if n < 10 then [] else dec (n div 10))"
  by (subst dec.simps) simp

lemma dec_inj: "dec n = dec m \<Longrightarrow> n = m"
proof (induction n arbitrary: m rule: less_induct)
  case (less n)
  have l: "n mod 10 = m mod 10"
    using less.prems last_dec [of n] last_dec [of m] by simp
  have b: "butlast (dec n) = butlast (dec m)"
    using less.prems by simp
  show ?case
  proof (cases "n < 10")
    case True
    then have "butlast (dec m) = []" using b by (simp add: butlast_dec)
    then have "m < 10" using dec_nonempty [of "m div 10"]
      by (simp add: butlast_dec split: if_splits)
    with True l show ?thesis by simp
  next
    case False
    then have e: "butlast (dec m) = dec (n div 10)" using b by (simp add: butlast_dec)
    then have m: "\<not> m < 10" using dec_nonempty [of "n div 10"]
      by (auto simp: butlast_dec split: if_splits)
    then have "dec (n div 10) = dec (m div 10)" using e by (simp add: butlast_dec)
    moreover have "n div 10 < n" using False by simp
    ultimately have "n div 10 = m div 10" using less.IH by blast
    with l show ?thesis
      by (metis div_mult_mod_eq)
  qed
qed

lemma safe_filename_head: "safe_filename s n \<noteq> [] \<and> hd (safe_filename s n) \<noteq> 47"
proof -
  define t where "t = filter safe_char (sub_ws_underscore (strip s))"
  define u where "u = (if length t > n then take n t else t)"
  have sf: "safe_filename s n = (if u = [] then str ''article'' else u)"
    by (simp add: safe_filename_def Let_def t_def u_def)
  have "set u \<subseteq> set t"
    by (auto simp: u_def dest: in_set_takeD)
  then have all: "\<forall>c \<in> set u. safe_char c"
    by (auto simp: t_def)
  show ?thesis
  proof (cases "u = []")
    case True
    then show ?thesis by (simp add: sf str_def)
  next
    case False
    then have "safe_char (hd u)" using all by simp
    then have "hd u \<noteq> 47" by (auto simp: safe_char_def)
    with False show ?thesis by (simp add: sf)
  qed
qed

lemma path_join_safe:
  "path_join SAVE_DIR (safe_filename s n @ r) = SAVE_DIR @ [47] @ safe_filename s n @ r"
proof -
  obtain c cs where e: "safe_filename s n = c # cs" and c: "c \<noteq> 47"
    using safe_filename_head [of s n] by (cases "safe_filename s n") auto
  have "SAVE_DIR \<noteq> []" and "last SAVE_DIR \<noteq> 47"
    by (simp_all add: SAVE_DIR_def str_def)
  then show ?thesis
    using c by (simp add: path_join_def e)
qed

lemma numbered_inj: "numbered b j = numbered b k \<Longrightarrow> j = k"
proof -
  assume a: "numbered b j = numbered b k"
  have neq: "str ''_'' @ dec n @ str ''.txt'' \<noteq> str ''.txt''" for n
  proof
    assume "str ''_'' @ dec n @ str ''.txt'' = str ''.txt''"
    then have "length (str ''_'' @ dec n @ str ''.txt'') = length (str ''.txt'')" by simp
    then show False by (simp add: str_def)
  qed
  show ?thesis
  proof (cases "j = 0")
    case True
    then show ?thesis using a neq [of k] by (auto simp: numbered_def split: if_splits)
  next
    case False
    then show ?thesis using a neq [of j] dec_inj [of j k]
      by (auto simp: numbered_def split: if_splits)
  qed
qed

lemma first_path: "path_join SAVE_DIR (safe_filename base 120 @ str ''.txt'')
    = numbered (safe_filename base 120) 0"
  unfolding path_join_safe by (simp add: numbered_def SAVE_DIR_def str_def)

lemma next_path: "0 < k \<Longrightarrow>
  path_join SAVE_DIR (safe_filename base 120 @ str ''_'' @ dec k @ str ''.txt'')
    = numbered (safe_filename base 120) k"
  unfolding path_join_safe by (simp add: numbered_def SAVE_DIR_def str_def)

text \<open>
  The collision loop, started at name number \<open>c\<close>, stops at the first free number at or
  after \<open>c\<close>.
\<close>

lemma free_path_first_free:
  assumes "c \<le> i"
    and "\<forall>k. c \<le> k \<and> k < i \<longrightarrow> fs (numbered (safe_filename base 120) k) \<noteq> None"
    and "fs (numbered (safe_filename base 120) i) = None"
  shows "free_path fs base (numbered (safe_filename base 120) c) (c + 1)
           = Some (numbered (safe_filename base 120) i)"
  using assms
proof (induction "i - c" arbitrary: c)
  case 0
  then have "c = i" by simp
  then show ?case using "0.prems"(3) by (subst free_path.simps) simp
next
  case (Suc d)
  then have lt: "c < i" by simp
  then have ex: "fs (numbered (safe_filename base 120) c) \<noteq> None"
    using Suc.prems(2) by simp
  have "free_path fs base (numbered (safe_filename base 120) (Suc c)) (Suc c + 1)
          = Some (numbered (safe_filename base 120) i)"
  proof (rule Suc.hyps(1))
    show "d = i - Suc c" using Suc.hyps(2) by simp
    show "Suc c \<le> i" using lt by simp
    show "\<forall>k. Suc c \<le> k \<and> k < i \<longrightarrow> fs (numbered (safe_filename base 120) k) \<noteq> None"
      using Suc.prems(2) by simp
    show "fs (numbered (safe_filename base 120) i) = None" by (rule Suc.prems(3))
  qed
  then show ?case
    using ex by (subst free_path.simps) (simp add: next_path)
qed


lemma write_pieces_encodable:
  assumes "encodable title" and "encodable url" and "encodable content"
  shows "write_pieces (artifact_pieces title url content) [] = Inr (artifact_text title url content)"
proof -
  have 1: "encodable (str ''Source: '' @ url @ [10])"
    using assms(2) by (simp add: encodable_def str_def)
  have 2: "encodable (str ''Title: '' @ title @ [10])"
    using assms(1) by (simp add: encodable_def str_def)
  have 3: "encodable (replicate 80 61 @ [10, 10])"
    by (simp add: encodable_def list_all_iff)
  show ?thesis
    using 1 2 3 assms(3) by (simp add: artifact_pieces_def artifact_text_def)
qed

lemma save_article_to_txt_numbered:
  assumes "url_path url = Some path"
    and "\<forall>k < i. fs (numbered (safe_filename (file_base path title) 120) k) \<noteq> None"
    and "fs (numbered (safe_filename (file_base path title) 120) i) = None"
  shows "save_article_to_txt url_path fs title url content =
           (case write_pieces (artifact_pieces title url content) [] of
              Inl partial \<Rightarrow>
                Some (Inl UnicodeEncodeError,
                      fs(numbered (safe_filename (file_base path title) 120) i \<mapsto> partial), [])
            | Inr full \<Rightarrow>
                Some (Inr (),
                      fs(numbered (safe_filename (file_base path title) 120) i \<mapsto> full),
                      [Print (Saved (basename
                         (numbered (safe_filename (file_base path title) 120) i)))]))"
proof -
  have "free_path fs (file_base path title)
          (numbered (safe_filename (file_base path title) 120) 0) (0 + 1)
        = Some (numbered (safe_filename (file_base path title) 120) i)"
    by (rule free_path_first_free) (use assms in simp_all)
  then show ?thesis
    using assms(1) by (simp add: save_article_to_txt_def Let_def first_path)
qed

lemma save_article_to_txt_numbered_ok:
  assumes "url_path url = Some path"
    and "\<forall>k < i. fs (numbered (safe_filename (file_base path title) 120) k) \<noteq> None"
    and "fs (numbered (safe_filename (file_base path title) 120) i) = None"
    and "encodable title" and "encodable url" and "encodable content"
  shows "save_article_to_txt url_path fs title url content =
           Some (Inr (),
                 fs(numbered (safe_filename (file_base path title) 120) i
                      \<mapsto> artifact_text title url content),
                 [Print (Saved (basename
                    (numbered (safe_filename (file_base path title) 120) i)))])"
  using save_article_to_txt_numbered [where url_path = url_path and url = url and path = path
          and i = i and fs = fs and title = title and content = content]
    assms(1-3) write_pieces_encodable [OF assms(4-6)]
  by simp




text \<open>
  The directory after saving the articles \<open>arts\<close> under the names number \<open>n\<close>,
  \<open>n + 1\<close>, ... of the base \<open>b\<close>; used to state what \<open>save_all\<close> leaves behind.
\<close>

lemma save_all_numbered:
  assumes "\<forall>(title, url, content) \<in> set arts.
             \<exists>path. url_path url = Some path \<and> safe_filename (file_base path title) 120 = b"
    and "\<forall>(title, url, content) \<in> set arts.
           encodable title \<and> encodable url \<and> encodable content"
    and "\<forall>k < n. fs (numbered b k) \<noteq> None"
    and "\<forall>k. n \<le> k \<and> k < n + length arts \<longrightarrow> fs (numbered b k) = None"
  shows "\<exists>fs' evs. save_all url_path fs arts = Some (Inr (), fs', evs)
           \<and> (\<forall>k < length arts.
                 fs' (numbered b (n + k)) = Some (case arts ! k of (t, u, c) \<Rightarrow> artifact_text t u c))
           \<and> (\<forall>p. p \<notin> numbered b ` {n ..< n + length arts} \<longrightarrow> fs' p = fs p)"
  using assms
proof (induction arts arbitrary: fs n)
  case Nil
  then show ?case by simp
next
  case (Cons a rest)
  obtain t u c where a: "a = (t, u, c)" by (cases a) auto
  obtain path where path: "url_path u = Some path"
    and b: "safe_filename (file_base path t) 120 = b"
    using Cons.prems(1) a by auto
  let ?fs1 = "fs(numbered b n \<mapsto> artifact_text t u c)"
  have free_n: "fs (numbered b n) = None"
    using Cons.prems(4) by simp
  have enc: "encodable t" "encodable u" "encodable c"
    using Cons.prems(2) a by auto
  have step: "save_article_to_txt url_path fs t u c =
                Some (Inr (), ?fs1, [Print (Saved (basename (numbered b n)))])"
    using save_article_to_txt_numbered_ok [where url_path = url_path and url = u
            and path = path and i = n and fs = fs and title = t and content = c]
          path Cons.prems(3) free_n enc
    by (simp add: b)
  have p1: "\<forall>(title, url, content) \<in> set rest.
             \<exists>path. url_path url = Some path \<and> safe_filename (file_base path title) 120 = b"
    using Cons.prems(1) by simp
  have pe: "\<forall>(title, url, content) \<in> set rest.
             encodable title \<and> encodable url \<and> encodable content"
    using Cons.prems(2) by simp
  have p2: "\<forall>k < Suc n. ?fs1 (numbered b k) \<noteq> None"
    using Cons.prems(3) by (simp add: less_Suc_eq)
  have p3: "\<forall>k. Suc n \<le> k \<and> k < Suc n + length rest \<longrightarrow> ?fs1 (numbered b k) = None"
  proof (intro allI impI)
    fix k assume k: "Suc n \<le> k \<and> k < Suc n + length rest"
    then have "numbered b k \<noteq> numbered b n"
      using numbered_inj [of b k n] by auto
    moreover have "fs (numbered b k) = None"
      using Cons.prems(4) k by simp
    ultimately show "?fs1 (numbered b k) = None" by simp
  qed
  obtain fs' evs where rest: "save_all url_path ?fs1 rest = Some (Inr (), fs', evs)"
    and written: "\<forall>k < length rest.
          fs' (numbered b (Suc n + k)) = Some (case rest ! k of (t, u, c) \<Rightarrow> artifact_text t u c)"
    and others: "\<forall>p. p \<notin> numbered b ` {Suc n ..< Suc n + length rest} \<longrightarrow> fs' p = ?fs1 p"
    using Cons.IH [OF p1 pe p2 p3] by blast
  have run: "save_all url_path fs (a # rest) =
               Some (Inr (), fs', [Print (Saved (basename (numbered b n)))] @ evs)"
    by (simp add: a step rest)
  have w: "\<forall>k < length (a # rest).
             fs' (numbered b (n + k)) = Some (case (a # rest) ! k of (t, u, c) \<Rightarrow> artifact_text t u c)"
  proof (intro allI impI)
    fix k assume k: "k < length (a # rest)"
    show "fs' (numbered b (n + k)) = Some (case (a # rest) ! k of (t, u, c) \<Rightarrow> artifact_text t u c)"
    proof (cases k)
      case 0
      have "numbered b n \<notin> numbered b ` {Suc n ..< Suc n + length rest}"
        using numbered_inj [of b n] by auto
      then have "fs' (numbered b n) = ?fs1 (numbered b n)"
        using others by blast
      then show ?thesis using 0 by (simp add: a)
    next
      case (Suc j)
      then have "j < length rest" using k by simp
      then show ?thesis using written Suc by simp
    qed
  qed
  have o: "\<forall>p. p \<notin> numbered b ` {n ..< n + length (a # rest)} \<longrightarrow> fs' p = fs p"
  proof (intro allI impI)
    fix p assume p: "p \<notin> numbered b ` {n ..< n + length (a # rest)}"
    have sub: "numbered b ` {Suc n ..< Suc n + length rest}
                 \<subseteq> numbered b ` {n ..< n + length (a # rest)}"
      by (rule image_mono) auto
    have "numbered b n \<in> numbered b ` {n ..< n + length (a # rest)}"
      by (rule imageI) simp
    then have ne: "p \<noteq> numbered b n" using p by blast
    have "fs' p = ?fs1 p" using others p sub by blast
    then show "fs' p = fs p" using ne by simp
  qed
  show ?case using run w o by blast
qed

text \<open>
  C6. \<open>N\<close> articles whose sanitised base names are all the same \<open>b\<close>, and whose titles,
  URLs and bodies can be encoded in UTF-8, are saved one after the other into a
  directory in which none of \<open>b.txt\<close>, \<open>b_1.txt\<close>, ..., \<open>b_(N-1).txt\<close> exists yet. Every
  call returns normally; the \<open>k\<close>-th article (counting from 0) is in the file
  number \<open>k\<close>, which is \<open>b.txt\<close> for the first and \<open>b_k.txt\<close> for the others; these \<open>N\<close>
  names are pairwise different; every other file of the directory is as it was.
\<close>

theorem colliding_names_get_suffixes:
  assumes "\<forall>(title, url, content) \<in> set arts.
             \<exists>path. url_path url = Some path \<and> safe_filename (file_base path title) 120 = b"
    and "\<forall>(title, url, content) \<in> set arts.
           encodable title \<and> encodable url \<and> encodable content"
    and "\<forall>k < length arts. fs (numbered b k) = None"
  shows "\<exists>fs' evs. save_all url_path fs arts = Some (Inr (), fs', evs)
           \<and> (\<forall>k < length arts.
                 fs' (numbered b k) = Some (case arts ! k of (t, u, c) \<Rightarrow> artifact_text t u c))
           \<and> (\<forall>p. p \<notin> numbered b ` {..< length arts} \<longrightarrow> fs' p = fs p)
           \<and> distinct (map (numbered b) [0 ..< length arts])
           \<and> numbered b 0 = str ''articles/'' @ b @ str ''.txt''
           \<and> (\<forall>k > 0. numbered b k = str ''articles/'' @ b @ str ''_'' @ dec k @ str ''.txt'')"
proof -
  have "\<forall>k. 0 \<le> k \<and> k < 0 + length arts \<longrightarrow> fs (numbered b k) = None"
    using assms(3) by simp
  then obtain fs' evs where run: "save_all url_path fs arts = Some (Inr (), fs', evs)"
    and w: "\<forall>k < length arts.
          fs' (numbered b (0 + k)) = Some (case arts ! k of (t, u, c) \<Rightarrow> artifact_text t u c)"
    and o: "\<forall>p. p \<notin> numbered b ` {0 ..< 0 + length arts} \<longrightarrow> fs' p = fs p"
    using save_all_numbered [OF assms(1) assms(2), of 0 fs] by blast
  have d: "distinct (map (numbered b) [0 ..< length arts])"
    by (simp add: distinct_map inj_on_def) (metis numbered_inj)
  have n0: "numbered b 0 = str ''articles/'' @ b @ str ''.txt''"
    by (simp add: numbered_def)
  have nk: "\<forall>k > 0. numbered b k = str ''articles/'' @ b @ str ''_'' @ dec k @ str ''.txt''"
    by (simp add: numbered_def)
  have o': "\<forall>p. p \<notin> numbered b ` {..< length arts} \<longrightarrow> fs' p = fs p"
    using o by (simp add: atLeast0LessThan)
  show ?thesis using run w o' d n0 nk by auto
qed

theorem colliding_names_get_suffixes_witness:
  "\<exists>fs' evs.
     save_all (\<lambda>u. Some (str ''/a'')) Map.empty
       [(str ''T'', str ''https://x.test/a'', str ''one''),
        (str ''T'', str ''https://x.test/a'', str ''two'')] = Some (Inr (), fs', evs)
     \<and> fs' (str ''articles/a_T.txt'')
         = Some (artifact_text (str ''T'') (str ''https://x.test/a'') (str ''one''))
     \<and> fs' (str ''articles/a_T_1.txt'')
         = Some (artifact_text (str ''T'') (str ''https://x.test/a'') (str ''two''))"
proof -
  have h1: "\<forall>(title, url, content) \<in> set
       [(str ''T'', str ''https://x.test/a'', str ''one''),
        (str ''T'', str ''https://x.test/a'', str ''two'')].
       \<exists>path. (\<lambda>u. Some (str ''/a'')) url = Some path
          \<and> safe_filename (file_base path title) 120 = str ''a_T''"
    by (simp add: safe_filename_def file_base_def rstrip_by_def strip_def str_def is_space_def safe_char_def Let_def)
  have he: "\<forall>(title, url, content) \<in> set
       [(str ''T'', str ''https://x.test/a'', str ''one''),
        (str ''T'', str ''https://x.test/a'', str ''two'')].
       encodable title \<and> encodable url \<and> encodable content"
    by (simp add: encodable_def str_def)
  have h2: "\<forall>k < length
       [(str ''T'', str ''https://x.test/a'', str ''one''),
        (str ''T'', str ''https://x.test/a'', str ''two'')].
       (Map.empty :: files) (numbered (str ''a_T'') k) = None"
    by simp
  have n0: "numbered (str ''a_T'') 0 = str ''articles/a_T.txt''"
    by (simp add: numbered_def str_def)
  have n1: "numbered (str ''a_T'') 1 = str ''articles/a_T_1.txt''"
    by (simp add: numbered_def str_def dec.simps)
  from colliding_names_get_suffixes [OF h1 he h2]
  obtain fs' evs where r: "save_all (\<lambda>u. Some (str ''/a'')) Map.empty
       [(str ''T'', str ''https://x.test/a'', str ''one''),
        (str ''T'', str ''https://x.test/a'', str ''two'')] = Some (Inr (), fs', evs)"
    and w: "\<forall>k < length [(str ''T'', str ''https://x.test/a'', str ''one''),
        (str ''T'', str ''https://x.test/a'', str ''two'')].
         fs' (numbered (str ''a_T'') k) = Some (case [(str ''T'', str ''https://x.test/a'', str ''one''),
        (str ''T'', str ''https://x.test/a'', str ''two'')] ! k of (t, u, c) \<Rightarrow> artifact_text t u c)"
    by blast
  have "fs' (numbered (str ''a_T'') 0) = Some (artifact_text (str ''T'') (str ''https://x.test/a'') (str ''one''))"
    using w by simp
  moreover have "fs' (numbered (str ''a_T'') 1) = Some (artifact_text (str ''T'') (str ''https://x.test/a'') (str ''two''))"
    using w by simp
  ultimately show ?thesis using r n0 n1 by auto
qed

section \<open>Properties of the dataset writer\<close>

text \<open>
  C9. On an empty dataset \<open>save_to_csv\<close> returns normally (no exception), prints the
  warning and nothing else, and leaves the file system, the output file included, as it
  was.
\<close>

theorem save_to_csv_empty:
  "save_to_csv csv_row fs [] output_file = (Inr (), fs, [Print WarnNoData])"
  by (simp add: save_to_csv_def)


section \<open>Properties of the link extractor\<close>

lemma dedup_loop_firsts: "dedup_loop ls (set pre) uniq = uniq @ firsts pre ls"
proof (induction ls arbitrary: pre uniq)
  case Nil
  then show ?case by simp
next
  case (Cons l ls)
  have ih: "dedup_loop ls (set (pre @ [l])) u = u @ firsts (pre @ [l]) ls" for u
    by (rule Cons.IH)
  show ?case
  proof (cases "l \<in> set pre")
    case True
    then have "set (pre @ [l]) = set pre" by auto
    then show ?thesis using ih [of uniq] True by simp
  next
    case False
    then show ?thesis using ih [of "uniq @ [l]"] by simp
  qed
qed

lemma firsts_set: "set (firsts pre ls) = set ls - set pre"
  by (induction ls arbitrary: pre) auto

lemma firsts_distinct: "distinct (firsts pre ls)"
  by (induction ls arbitrary: pre) (auto simp: firsts_set)

lemma firsts_index:
  "firsts pre ls =
     map (\<lambda>i. (pre @ ls) ! i)
       (filter (\<lambda>i. (pre @ ls) ! i \<notin> set (take i (pre @ ls)))
          [length pre ..< length pre + length ls])"
proof (induction ls arbitrary: pre)
  case Nil
  then show ?case by simp
next
  case (Cons x xs)
  have ih: "firsts (pre @ [x]) xs =
     map (\<lambda>i. (pre @ x # xs) ! i)
       (filter (\<lambda>i. (pre @ x # xs) ! i \<notin> set (take i (pre @ x # xs)))
          [Suc (length pre) ..< Suc (length pre) + length xs])"
    using Cons.IH [of "pre @ [x]"]
    by (simp only: append_assoc append_Cons append_Nil length_append_singleton)
  have range: "[length pre ..< length pre + length (x # xs)]
                 = length pre # [Suc (length pre) ..< Suc (length pre) + length xs]"
    using upt_conv_Cons [of "length pre" "length pre + length (x # xs)"] by simp
  have here: "(pre @ x # xs) ! length pre = x" and before: "take (length pre) (pre @ x # xs) = pre"
    by simp_all
  show ?case
  proof (cases "x \<in> set pre")
    case True
    then show ?thesis
      unfolding range by (simp only: firsts.simps ih filter.simps list.map here before) simp
  next
    case False
    then show ?thesis
      unfolding range by (simp only: firsts.simps ih filter.simps list.map here before) simp
  qed
qed

lemma firsts_of_distinct: "distinct ls \<Longrightarrow> set ls \<inter> set pre = {} \<Longrightarrow> firsts pre ls = ls"
  by (induction ls arbitrary: pre) auto

text \<open>
  C5. When the two rules have collected the links \<open>links\<close>, \<open>extract_article_links\<close>
  returns a list without duplicates that has the same elements as \<open>links\<close>, and it is
  the list of the first occurrences: the elements of \<open>links\<close> at the positions \<open>i\<close> where
  \<open>links ! i\<close> has not occurred before position \<open>i\<close>, in the order of \<open>links\<close>.
\<close>

theorem extract_article_links_dedup:
  assumes "candidate_links L (parse_html L listing_html) base_url = Inr links"
  shows "\<exists>out. extract_article_links L listing_html base_url = Inr out
           \<and> distinct out
           \<and> set out = set links
           \<and> out = map (\<lambda>i. links ! i)
                      (filter (\<lambda>i. links ! i \<notin> set (take i links)) [0 ..< length links])"
proof -
  have d: "dedup_loop links {} [] = firsts [] links"
    using dedup_loop_firsts [of links "[]" "[]"] by simp
  have r: "extract_article_links L listing_html base_url = Inr (firsts [] links)"
    by (simp add: extract_article_links_def assms d)
  have i: "firsts [] links = map (\<lambda>i. links ! i)
                      (filter (\<lambda>i. links ! i \<notin> set (take i links)) [0 ..< length links])"
    using firsts_index [of "[]" links] by simp
  show ?thesis
    using r i firsts_distinct [of "[]" links] firsts_set [of "[]" links] by simp
qed


lemma fallback_links_all_prefixed:
  assumes "\<forall>a \<in> set as. \<exists>u. urljoin L base (the (attr (str ''href'') a)) = Some u \<and> prefix base u"
  shows "fallback_links L base as links =
           Inr (links @ filter (\<lambda>u. \<not> list_ex (\<lambda>x. contains (lower L u) x) non_article_markers)
                          (map (\<lambda>a. the (urljoin L base (the (attr (str ''href'') a)))) as))"
  using assms
proof (induction as arbitrary: links)
  case Nil
  then show ?case by simp
next
  case (Cons a as)
  obtain u where u: "urljoin L base (the (attr (str ''href'') a)) = Some u" and p: "prefix base u"
    using Cons.prems by auto
  have rest: "\<forall>a \<in> set as. \<exists>u. urljoin L base (the (attr (str ''href'') a)) = Some u \<and> prefix base u"
    using Cons.prems by simp
  show ?case
    using u p Cons.IH [OF rest] by (simp add: Let_def)
qed

text \<open>
  What the fallback rule does on a listing without a matching heading and with exactly
  three anchors, when the three resolved URLs pass the test that the code makes, which
  is that they start with \<open>base_url\<close> as strings: with \<open>v\<close> and \<open>w\<close> the two of them, in
  document order, that do not contain \<^verbatim>\<open>.pdf\<close>, and no other excluded marker in any of
  the three, the result is \<open>v\<close> and \<open>w\<close>, in this order (once, if they are the same URL).
\<close>

lemma fallback_keeps_non_pdf:
  assumes "find_all (\<lambda>n. is_tag [str ''h3''] n
                         \<and> has_class (str ''entry-title td-module-title'') n)
             (parse_html L listing_html) = []"
    and "map (\<lambda>a. the (attr (str ''href'') a))
           (find_all (\<lambda>n. is_tag [str ''a''] n \<and> attr (str ''href'') n \<noteq> None)
              (parse_html L listing_html)) = [h1, h2, h3]"
    and "urljoin L base_url h1 = Some u1"
    and "urljoin L base_url h2 = Some u2"
    and "urljoin L base_url h3 = Some u3"
    and "prefix base_url u1 \<and> prefix base_url u2 \<and> prefix base_url u3"
    and "filter (\<lambda>u. \<not> contains (lower L u) (str ''.pdf'')) [u1, u2, u3] = [v, w]"
    and "\<forall>u \<in> {u1, u2, u3}. \<forall>m \<in> {str ''.jpg'', str ''.png'', str ''#'', str ''?replytocom''}.
           \<not> contains (lower L u) m"
  shows "extract_article_links L listing_html base_url = Inr (if v = w then [v] else [v, w])"
proof -
  let ?as = "find_all (\<lambda>n. is_tag [str ''a''] n \<and> attr (str ''href'') n \<noteq> None)
              (parse_html L listing_html)"
  obtain a1 a2 a3 where as: "?as = [a1, a2, a3]"
    and h: "the (attr (str ''href'') a1) = h1" "the (attr (str ''href'') a2) = h2"
           "the (attr (str ''href'') a3) = h3"
    using assms(2) by (auto simp: map_eq_Cons_conv)
  have pre: "\<forall>a \<in> set [a1, a2, a3].
               \<exists>u. urljoin L base_url (the (attr (str ''href'') a)) = Some u \<and> prefix base_url u"
    using h assms(3-6) by simp
  have urls: "map (\<lambda>a. the (urljoin L base_url (the (attr (str ''href'') a)))) [a1, a2, a3]
                = [u1, u2, u3]"
    using h assms(3-5) by simp
  have excl: "list_ex (\<lambda>x. contains (lower L u) x) non_article_markers
                = contains (lower L u) (str ''.pdf'')" if "u \<in> {u1, u2, u3}" for u
    using that assms(8) by (auto simp: non_article_markers_def)
  have feq: "filter (\<lambda>u. \<not> list_ex (\<lambda>x. contains (lower L u) x) non_article_markers) [u1, u2, u3]
          = filter (\<lambda>u. \<not> contains (lower L u) (str ''.pdf'')) [u1, u2, u3]"
    by (rule filter_cong) (use excl in auto)
  have "fallback_links L base_url [a1, a2, a3] [] =
          Inr ([] @ filter (\<lambda>u. \<not> list_ex (\<lambda>x. contains (lower L u) x) non_article_markers)
                      (map (\<lambda>a. the (urljoin L base_url (the (attr (str ''href'') a))))
                         [a1, a2, a3]))"
    by (rule fallback_links_all_prefixed [OF pre])
  then have fb: "fallback_links L base_url [a1, a2, a3] [] = Inr [v, w]"
    by (simp only: urls feq assms(7) append_Nil)
  have "candidate_links L (parse_html L listing_html) base_url = Inr [v, w]"
    unfolding candidate_links_def assms(1) as using fb by simp
  then show ?thesis
    by (simp add: extract_article_links_def)
qed

lemma fallback_keeps_non_pdf_example:
  "extract_article_links lib_three_anchors [] (str ''https://x.test/'')
     = Inr [str ''https://x.test/news/a'', str ''https://x.test/about'']"
proof -
  have 1: "find_all (\<lambda>n. is_tag [str ''h3''] n
                         \<and> has_class (str ''entry-title td-module-title'') n)
             (parse_html lib_three_anchors []) = []"
    by (simp add: find_all_def lib_three_anchors_def listing_three_anchors_def str_def)
  have 2: "map (\<lambda>a. the (attr (str ''href'') a))
           (find_all (\<lambda>n. is_tag [str ''a''] n \<and> attr (str ''href'') n \<noteq> None)
              (parse_html lib_three_anchors []))
           = [str ''https://x.test/news/a'', str ''https://x.test/about'',
              str ''https://x.test/news/b.pdf'']"
    by (simp add: find_all_def lib_three_anchors_def listing_three_anchors_def str_def)
  have 3: "urljoin lib_three_anchors (str ''https://x.test/'') (str ''https://x.test/news/a'')
             = Some (str ''https://x.test/news/a'')"
    and 4: "urljoin lib_three_anchors (str ''https://x.test/'') (str ''https://x.test/about'')
             = Some (str ''https://x.test/about'')"
    and 5: "urljoin lib_three_anchors (str ''https://x.test/'') (str ''https://x.test/news/b.pdf'')
             = Some (str ''https://x.test/news/b.pdf'')"
    by (simp_all add: lib_three_anchors_def)
  have 6: "prefix (str ''https://x.test/'') (str ''https://x.test/news/a'')
         \<and> prefix (str ''https://x.test/'') (str ''https://x.test/about'')
         \<and> prefix (str ''https://x.test/'') (str ''https://x.test/news/b.pdf'')"
    by (simp add: str_def)
  have 7: "filter (\<lambda>u. \<not> contains (lower lib_three_anchors u) (str ''.pdf''))
             [str ''https://x.test/news/a'', str ''https://x.test/about'',
              str ''https://x.test/news/b.pdf'']
           = [str ''https://x.test/news/a'', str ''https://x.test/about'']"
    by (simp add: lower_def ascii_lower_def str_def)
  have 8: "\<forall>u \<in> {str ''https://x.test/news/a'', str ''https://x.test/about'',
              str ''https://x.test/news/b.pdf''}.
           \<forall>m \<in> {str ''.jpg'', str ''.png'', str ''#'', str ''?replytocom''}.
           \<not> contains (lower lib_three_anchors u) m"
    by (simp add: lower_def ascii_lower_def str_def)
  have ne: "str ''https://x.test/news/a'' \<noteq> str ''https://x.test/about''"
    by (simp add: str_def)
  show ?thesis
    using fallback_keeps_non_pdf [OF 1 2 3 4 5 6 7 8] ne by simp
qed

text \<open>
  C8. The claim is that a listing with no heading matching the primary rule and three
  anchors whose resolved URLs are same-origin with the base URL, one of them a
  \<^verbatim>\<open>.pdf\<close> and none with another excluded marker, yields exactly the two other URLs by
  the fallback rule. The comment at the guard of the fallback states this intent
  (\<^verbatim>\<open>same domain\<close>), but the guard tests \<^verbatim>\<open>startswith(base_url)\<close>, and the code misses
  the claim: with the base URL \<^verbatim>\<open>https://x.test/news/\<close> and the page
  \<^verbatim>\<open><a href="https://x.test/news/a">A</a><a href="https://x.test/about">B</a>\<close>
  \<^verbatim>\<open><a href="https://x.test/news/b.pdf">C</a>\<close> there is no heading, the three resolved
  URLs are same-origin with the base URL, only the third one contains an excluded
  marker (\<^verbatim>\<open>.pdf\<close>), and yet the result is the first URL alone: the second one, on the
  same domain, does not start with the base URL and is dropped.
\<close>

theorem fallback_drops_same_origin_anchor:
  "find_all (\<lambda>n. is_tag [str ''h3''] n \<and> has_class (str ''entry-title td-module-title'') n)
     (parse_html lib_three_anchors []) = []
   \<and> map (\<lambda>a. urljoin lib_three_anchors (str ''https://x.test/news/'') (the (attr (str ''href'') a)))
       (find_all (\<lambda>n. is_tag [str ''a''] n \<and> attr (str ''href'') n \<noteq> None)
          (parse_html lib_three_anchors []))
     = [Some (str ''https://x.test/news/a''), Some (str ''https://x.test/about''),
        Some (str ''https://x.test/news/b.pdf'')]
   \<and> same_origin (str ''https://x.test/news/a'') (str ''https://x.test/news/'')
   \<and> same_origin (str ''https://x.test/about'') (str ''https://x.test/news/'')
   \<and> same_origin (str ''https://x.test/news/b.pdf'') (str ''https://x.test/news/'')
   \<and> filter (\<lambda>u. list_ex (\<lambda>x. contains (lower lib_three_anchors u) x) non_article_markers)
         [str ''https://x.test/news/a'', str ''https://x.test/about'',
          str ''https://x.test/news/b.pdf'']
       = [str ''https://x.test/news/b.pdf'']
   \<and> extract_article_links lib_three_anchors [] (str ''https://x.test/news/'')
       = Inr [str ''https://x.test/news/a'']
   \<and> extract_article_links lib_three_anchors [] (str ''https://x.test/news/'')
       \<noteq> Inr [str ''https://x.test/news/a'', str ''https://x.test/about'']"
  by (simp add: extract_article_links_def candidate_links_def find_all_def
        lib_three_anchors_def listing_three_anchors_def str_def lower_def ascii_lower_def
        non_article_markers_def same_origin_def origin_def Let_def)

theorem extract_article_links_dedup_witness:
  "extract_article_links
     \<lparr>parse_html = (\<lambda>html. Tag (str ''[document]'') []
          [Tag (str ''a'') [(str ''href'', str ''x'')] [],
           Tag (str ''a'') [(str ''href'', str ''y'')] [],
           Tag (str ''a'') [(str ''href'', str ''x'')] []]),
      urljoin = (\<lambda>base href. Some (base @ href)),
      unicode_lower = (\<lambda>s. s)\<rparr> [] (str ''b/'')
   = Inr [str ''b/x'', str ''b/y'']"
proof -
  let ?L = "\<lparr>parse_html = (\<lambda>html. Tag (str ''[document]'') []
          [Tag (str ''a'') [(str ''href'', str ''x'')] [],
           Tag (str ''a'') [(str ''href'', str ''y'')] [],
           Tag (str ''a'') [(str ''href'', str ''x'')] []]),
      urljoin = (\<lambda>base href. Some (base @ href)),
      unicode_lower = (\<lambda>s. s)\<rparr>"
  have c: "candidate_links ?L (parse_html ?L []) (str ''b/'')
             = Inr [str ''b/x'', str ''b/y'', str ''b/x'']"
    by (simp add: candidate_links_def find_all_def str_def lower_def ascii_lower_def
          non_article_markers_def Let_def)
  show ?thesis
    using extract_article_links_dedup [OF c] by (auto simp: str_def)
qed



section \<open>Properties of the content extractor\<close>

lemma sorted_le_last: "sorted xs \<Longrightarrow> x \<in> set xs \<Longrightarrow> x \<le> last xs"
  by (induction xs) auto

lemma sort_reverse_head:
  assumes "cs \<noteq> []"
  shows "\<exists>m rest. sort_reverse cs = m # rest \<and> m \<in> set cs \<and> (\<forall>c \<in> set cs. c \<le> m)"
proof -
  have ne: "sort cs \<noteq> []"
    using assms by (metis length_sort length_0_conv)
  then have "sort cs = butlast (sort cs) @ [last (sort cs)]"
    by simp
  then have "rev (sort cs) = rev (butlast (sort cs) @ [last (sort cs)])"
    by simp
  then have h: "sort_reverse cs = last (sort cs) # rev (butlast (sort cs))"
    by (simp only: sort_reverse_def rev_append rev.simps append_Nil append_Cons)
  have i: "last (sort cs) \<in> set cs"
    using ne last_in_set [of "sort cs"] by simp
  have g: "\<forall>c \<in> set cs. c \<le> last (sort cs)"
    using sorted_le_last [of "sort cs"] by simp
  show ?thesis
    using h i g by blast
qed

text \<open>
  C3 (amended). When no named content container is accepted, the body is chosen among
  the texts of the div, section and article elements below the document body (as the
  loop over the containers has left the document). If one of these texts is longer than
  100 characters, the result is one of them, it is at least as long as every other one,
  and among those of the same length it is the greatest in the lexicographic order of
  the code points. If none is longer than 100 characters, the result is empty.
\<close>

theorem fallback_selects_greatest_pair:
  assumes "content_loop soup content_selectors = ([], soup')"
    and "find_first (is_tag [str ''body'']) soup' = Some body"
    and "txts = map (get_text [10])
                  (find_all (is_tag [str ''div'', str ''section'', str ''article'']) body)"
  shows "((\<exists>t \<in> set txts. length t > 100) \<longrightarrow>
            snd (content_of_soup soup) \<in> set txts
            \<and> (\<forall>t \<in> set txts. length t < length (snd (content_of_soup soup))
                   \<or> (length t = length (snd (content_of_soup soup))
                       \<and> t \<le> snd (content_of_soup soup))))
         \<and> ((\<forall>t \<in> set txts. length t \<le> 100) \<longrightarrow> snd (content_of_soup soup) = [])"
proof -
  have r: "snd (content_of_soup soup) = fallback_content soup'"
    by (simp add: content_of_soup_def Let_def assms(1))
  have cs: "candidates body = map (\<lambda>t. (length t, t)) txts"
    by (simp add: candidates_def assms(3) comp_def)
  show ?thesis
  proof (cases "txts = []")
    case True
    then have "fallback_content soup' = []"
      by (simp add: fallback_content_def assms(2) cs sort_reverse_def)
    then show ?thesis using True r by simp
  next
    case False
    then have "candidates body \<noteq> []" by (simp add: cs)
    then obtain m rest where s: "sort_reverse (candidates body) = m # rest"
      and m: "m \<in> set (candidates body)" and g: "\<forall>c \<in> set (candidates body). c \<le> m"
      using sort_reverse_head by blast
    obtain largest where l: "m = (length largest, largest)" and lt: "largest \<in> set txts"
      using m by (auto simp: cs)
    have fc: "fallback_content soup' = (if length largest > 100 then largest else [])"
      by (simp add: fallback_content_def assms(2) s l)
    have ge: "length t < length largest \<or> (length t = length largest \<and> t \<le> largest)"
      if "t \<in> set txts" for t
    proof -
      have "(length t, t) \<le> (length largest, largest)"
        using g that by (auto simp: cs l)
      then show ?thesis by (auto simp: less_eq_prod_def)
    qed
    show ?thesis
    proof (cases "length largest > 100")
      case True
      then show ?thesis using r fc lt ge by auto
    next
      case False
      then have "\<forall>t \<in> set txts. length t \<le> 100" using ge by fastforce
      then show ?thesis using r fc False by auto
    qed
  qed
qed

lemma rep101: "replicate 101 (x::nat) = x # replicate 100 x"
  by (simp add: numeral_eq_Suc)

lemma two_blocks_loop:
  "content_loop page_two_blocks content_selectors = ([], page_two_blocks)"
  by (simp add: page_two_blocks_def content_selectors_def find_first_def find_all_def
        has_class_def str_def)

lemma two_blocks_body:
  "find_first (is_tag [str ''body'']) page_two_blocks =
     Some (Tag (str ''body'') []
             [Tag (str ''div'') [] [Str (replicate 101 97)],
              Tag (str ''div'') [] [Str (replicate 101 98)]])"
  by (simp add: page_two_blocks_def find_first_def find_all_def str_def)

lemma two_blocks_texts:
  "map (get_text [10])
     (find_all (is_tag [str ''div'', str ''section'', str ''article''])
        (Tag (str ''body'') []
             [Tag (str ''div'') [] [Str (replicate 101 97)],
              Tag (str ''div'') [] [Str (replicate 101 98)]]))
   = [replicate 101 97, replicate 101 98]"
  by (simp add: find_all_def get_text_def strip_def rstrip_by_def is_space_def str_def)

theorem fallback_selects_greatest_pair_witness:
  "snd (content_of_soup page_two_blocks) \<in> set [replicate 101 97, replicate 101 98]
   \<and> replicate 101 97 \<le> snd (content_of_soup page_two_blocks)
   \<and> replicate 101 98 \<le> snd (content_of_soup page_two_blocks)"
proof -
  have "\<exists>t \<in> set [replicate 101 97, replicate 101 (98::nat)]. length t > 100"
    by simp
  then show ?thesis
    using fallback_selects_greatest_pair [OF two_blocks_loop two_blocks_body
            two_blocks_texts [symmetric]]
    by auto
qed

text \<open>
  C3 as stated fails on the page of two blocks: no named container matches, the two
  blocks have 101 characters each, the first met is the block of a's, which is what the
  claim selects, and the function returns the block of b's.
\<close>

theorem fallback_tie_counterexample:
  "fst (content_loop (parse_html lib_two_blocks []) content_selectors) = []
   \<and> find_first (is_tag [str ''body''])
        (snd (content_loop (parse_html lib_two_blocks []) content_selectors))
       = Some (Tag (str ''body'') []
                 [Tag (str ''div'') [] [Str (replicate 101 97)],
                  Tag (str ''div'') [] [Str (replicate 101 98)]])
   \<and> map (get_text [10])
       (find_all (is_tag [str ''div'', str ''section'', str ''article''])
          (Tag (str ''body'') []
             [Tag (str ''div'') [] [Str (replicate 101 97)],
              Tag (str ''div'') [] [Str (replicate 101 98)]]))
       = [replicate 101 97, replicate 101 98]
   \<and> first_longest [replicate 101 97, replicate 101 98] = replicate 101 97
   \<and> extract_article_content lib_two_blocks [] = (str ''untitled'', replicate 101 98)
   \<and> snd (extract_article_content lib_two_blocks [])
       \<noteq> first_longest [replicate 101 97, replicate 101 98]"
proof -
  have p: "parse_html lib_two_blocks [] = page_two_blocks"
    by (simp add: lib_two_blocks_def)
  have c: "content_of_soup page_two_blocks = (str ''untitled'', replicate 101 98)"
    by (simp add: content_of_soup_def page_two_blocks_def title_selectors_def
          content_selectors_def find_first_def find_all_def has_class_def get_text_def
          strip_def rstrip_by_def fallback_content_def candidates_def sort_reverse_def
          is_space_def str_def rep101 Let_def)
  have f: "first_longest [replicate 101 97, replicate 101 98] = replicate 101 97"
    by simp
  have n: "replicate 101 (98::nat) \<noteq> replicate 101 97"
    by (simp add: rep101)
  show ?thesis
    unfolding p extract_article_content_def c f
    using two_blocks_loop two_blocks_body two_blocks_texts n by simp
qed



section \<open>Properties of the field extractor\<close>

lemmas rx_defs = source_rx_def date_rx_def body_date_rx_def founded_rx_def amount_rx_def
  funding_rx_def name_rx_def Opt_def Plus_def lit_def ilit_def is_digit_def is_word_def
  ci_def is_ascii_letter_def ascii_lower_def is_space_def at_word_def next_char_def
  re_search_def re_match_def groups_def between_def str_def

lemma scenario_url: "re_search source_rx scenario_text = Some (str ''Source: https://x.test/a'', str ''https://x.test/a'')"
  by (simp add: rx_defs scenario_text_def)

lemma scenario_founded: "re_search (founded_rx U) scenario_text = Some (str ''founded in 2019'', str ''2019'')"
  by (simp add: rx_defs scenario_text_def)


lemma scenario_amount: "re_search (amount_rx U) scenario_text = Some (str ''$5 million'', str ''$5 million'')"
  by (simp add: rx_defs scenario_text_def)

lemma scenario_date: "re_search (date_rx U) scenario_text = None"
  by (simp add: rx_defs scenario_text_def)

lemma scenario_body_date: "re_search (body_date_rx U) scenario_text = None"
  by (simp add: rx_defs scenario_text_def)

lemma scenario_type: "funding_type_loop U scenario_text funding_types (str ''undefined'') = str ''Series A''"
  by (simp add: rx_defs scenario_text_def funding_types_def str_title_def)

lemma scenario_lines: "splitlines (strip scenario_text) =
  [str ''Source: https://x.test/a'', str ''Title: T'', str ''===='', [],
   str ''Acme Corp raises $5 million in Series A funding, founded in 2019.'']"
  by (simp add: scenario_text_def strip_def rstrip_by_def is_space_def str_def
        splitlines.simps is_linebreak_def)

lemma scenario_name: "company_name_loop U (take 4 (drop 2 (splitlines (strip scenario_text)))) (str ''undefined'')
   = str ''Acme Corp''"
  unfolding scenario_lines
  by (simp add: rx_defs split_ws.simps strip_def rstrip_by_def)

text \<open>
  C2. For the artifact text of the first end-to-end scenario, and whatever the Unicode
  tables are, \<open>extract_info_from_text\<close> returns the record with company name
  \<^verbatim>\<open>Acme Corp\<close>, funding amount \<^verbatim>\<open>$5 million\<close>, funding type \<^verbatim>\<open>Series A\<close>, article date
  \<^verbatim>\<open>undefined\<close>, company since \<^verbatim>\<open>2019\<close> and article URL \<^verbatim>\<open>https://x.test/a\<close>.
\<close>

theorem scenario_one:
  "extract_info_from_text U scenario_text =
     \<lparr>company_name = str ''Acme Corp'',
      funding_amount = str ''$5 million'',
      funding_type = str ''Series A'',
      article_date = str ''undefined'',
      company_since = str ''2019'',
      article_url = str ''https://x.test/a''\<rparr>"
  unfolding extract_info_from_text_def scenario_url scenario_founded scenario_amount
    scenario_date scenario_body_date scenario_type scenario_name
  by (simp add: str_def)



lemma search_from_None:
  "search_from pat prev s = None
     \<longleftrightarrow> \<not> list_ex (\<lambda>cur. match_at pat cur \<noteq> []) (cursors prev s)"
  by (induction s arbitrary: prev) (auto split: list.splits)

lemma re_search_None: "re_search pat s = None \<longleftrightarrow> \<not> occurs pat s"
  by (simp add: re_search_def occurs_def search_from_None)

lemma funding_type_loop_none:
  "\<forall>ftype \<in> set fts. \<not> occurs (funding_rx U ftype) s
     \<Longrightarrow> funding_type_loop U s fts current = current"
  by (induction fts) (auto simp: re_search_None)

lemma company_name_loop_none:
  "\<forall>line \<in> set ls. \<forall>g0 g1. re_match (name_rx U) line = Some (g0, g1)
       \<longrightarrow> \<not> (2 \<le> length (split_ws g1) \<and> length (split_ws g1) \<le> 5)
     \<Longrightarrow> company_name_loop U ls current = current"
  by (induction ls) (auto split: option.splits)

text \<open>
  C4. A text is given in which none of the patterns occurs at any position: no
  \<^verbatim>\<open>Source:\<close> line, no \<^verbatim>\<open>Date:\<close> field and no date in the body, no \<^verbatim>\<open>founded in\<close> year, no
  amount led by a currency sign, no \<^verbatim>\<open><type> funding\<close> phrase for any type of the list;
  and no line of the window \<^verbatim>\<open>lines[2:6]\<close> has a capture before a delimiter that splits
  into two to five words. Then every field of the record that
  \<open>extract_info_from_text\<close> returns is \<^verbatim>\<open>undefined\<close>.
\<close>

theorem no_pattern_all_undefined:
  assumes "\<not> occurs source_rx s"
    and "\<not> occurs (date_rx U) s"
    and "\<not> occurs (body_date_rx U) s"
    and "\<not> occurs (founded_rx U) s"
    and "\<not> occurs (amount_rx U) s"
    and "\<forall>ftype \<in> set funding_types. \<not> occurs (funding_rx U ftype) s"
    and "\<forall>line \<in> set (take 4 (drop 2 (splitlines (strip s)))).
           \<forall>g0 g1. re_match (name_rx U) line = Some (g0, g1)
             \<longrightarrow> \<not> (2 \<le> length (split_ws g1) \<and> length (split_ws g1) \<le> 5)"
  shows "extract_info_from_text U s =
           \<lparr>company_name = str ''undefined'',
            funding_amount = str ''undefined'',
            funding_type = str ''undefined'',
            article_date = str ''undefined'',
            company_since = str ''undefined'',
            article_url = str ''undefined''\<rparr>"
proof -
  have "re_search source_rx s = None" "re_search (date_rx U) s = None"
    "re_search (body_date_rx U) s = None" "re_search (founded_rx U) s = None"
    "re_search (amount_rx U) s = None"
    using assms(1-5) by (simp_all add: re_search_None)
  moreover have "funding_type_loop U s funding_types (str ''undefined'') = str ''undefined''"
    using assms(6) by (rule funding_type_loop_none)
  moreover have "company_name_loop U (take 4 (drop 2 (splitlines (strip s)))) (str ''undefined'')
                   = str ''undefined''"
    using assms(7) by (rule company_name_loop_none)
  ultimately show ?thesis
    by (simp add: extract_info_from_text_def)
qed

theorem no_pattern_all_undefined_witness:
  "extract_info_from_text ascii_only plain_text =
           \<lparr>company_name = str ''undefined'',
            funding_amount = str ''undefined'',
            funding_type = str ''undefined'',
            article_date = str ''undefined'',
            company_since = str ''undefined'',
            article_url = str ''undefined''\<rparr>"
proof -
  have 1: "\<not> occurs source_rx plain_text"
    unfolding re_search_None [symmetric] by (simp add: rx_defs plain_text_def)
  have 2: "\<not> occurs (date_rx ascii_only) plain_text"
    unfolding re_search_None [symmetric] by (simp add: rx_defs plain_text_def)
  have 3: "\<not> occurs (body_date_rx ascii_only) plain_text"
    unfolding re_search_None [symmetric] by (simp add: rx_defs plain_text_def)
  have 4: "\<not> occurs (founded_rx ascii_only) plain_text"
    unfolding re_search_None [symmetric] by (simp add: rx_defs plain_text_def)
  have 5: "\<not> occurs (amount_rx ascii_only) plain_text"
    unfolding re_search_None [symmetric] by (simp add: rx_defs plain_text_def)
  have 6: "\<forall>ftype \<in> set funding_types. \<not> occurs (funding_rx ascii_only ftype) plain_text"
    unfolding re_search_None [symmetric] by (simp add: rx_defs plain_text_def funding_types_def)
  have l: "splitlines (strip plain_text) =
     [str ''Notes'', str ''None'', str ''a b c d e f, g'']"
    by (simp add: plain_text_def strip_def rstrip_by_def is_space_def str_def
          splitlines.simps is_linebreak_def)
  have 7: "\<forall>line \<in> set (take 4 (drop 2 (splitlines (strip plain_text)))).
           \<forall>g0 g1. re_match (name_rx ascii_only) line = Some (g0, g1)
             \<longrightarrow> \<not> (2 \<le> length (split_ws g1) \<and> length (split_ws g1) \<le> 5)"
    unfolding l by (simp add: rx_defs split_ws.simps)
  show ?thesis
    by (rule no_pattern_all_undefined [OF 1 2 3 4 5 6 7])
qed



lemma ends_ilit_step:
  "ends (Seq (ilit U (x # w)) R) (pv, ys) =
     (case ys of [] \<Rightarrow> []
      | c # cs \<Rightarrow> if ci U x c then ends (Seq (ilit U w) R) (Some c, cs) else [])"
  by (cases ys) (simp_all add: ilit_def)

lemma ilit_stepE:
  assumes "ends (Seq (ilit U (x # w)) R) (pv, ys) \<noteq> []"
  obtains c cs where "ys = c # cs" and "ci U x c"
    and "ends (Seq (ilit U w) R) (Some c, cs) \<noteq> []"
proof (cases ys)
  case Nil
  then show ?thesis using assms unfolding ends_ilit_step by simp
next
  case (Cons c cs)
  have "ci U x c \<and> ends (Seq (ilit U w) R) (Some c, cs) \<noteq> []"
    using assms unfolding ends_ilit_step Cons by (simp del: ends.simps split: if_splits)
  then show ?thesis using that Cons by blast
qed

lemma pre_seed_step:
  assumes "ends (Seq (ilit U (112 # 114 # 101 # 45 # w)) R) (pv, ys) \<noteq> []"
  shows "\<exists>c1 c2 c3 ys2. ys = c1 # c2 # c3 # 45 # ys2
           \<and> ends (Seq (ilit U w) R) (Some 45, ys2) \<noteq> []"
proof -
  obtain c1 r1 where 1: "ys = c1 # r1"
    and e1: "ends (Seq (ilit U (114 # 101 # 45 # w)) R) (Some c1, r1) \<noteq> []"
    using assms by (rule ilit_stepE)
  obtain c2 r2 where 2: "r1 = c2 # r2"
    and e2: "ends (Seq (ilit U (101 # 45 # w)) R) (Some c2, r2) \<noteq> []"
    using e1 by (rule ilit_stepE)
  obtain c3 r3 where 3: "r2 = c3 # r3"
    and e3: "ends (Seq (ilit U (45 # w)) R) (Some c3, r3) \<noteq> []"
    using e2 by (rule ilit_stepE)
  obtain c4 r4 where 4: "r3 = c4 # r4" and c4: "ci U 45 c4"
    and e4: "ends (Seq (ilit U w) R) (Some c4, r4) \<noteq> []"
    using e3 by (rule ilit_stepE)
  have "c4 = 45"
    using c4 by (simp add: ci_def is_ascii_letter_def)
  then show ?thesis
    using 1 2 3 4 e4 by blast
qed

lemma seed_boundary:
  assumes U: "\<forall>c. 128 \<le> c \<and> u_caseless U 115 c \<longrightarrow> u_word U c"
    and e: "ends (Seq (ilit U (115 # w)) R) (Some 45, ys) \<noteq> []"
  shows "ends (Seq (WordB (is_word U)) (Seq (ilit U (115 # w)) R)) (Some 45, ys) \<noteq> []"
proof -
  obtain c cs where ys: "ys = c # cs" and c: "ci U 115 c"
    using e by (rule ilit_stepE)
  have "is_word U c"
  proof (cases "c < 128")
    case True
    then have "ascii_lower c = 115"
      using c by (simp add: ci_def is_ascii_letter_def ascii_lower_def)
    then have "c = 115 \<or> c = 83"
      by (auto simp: ascii_lower_def split: if_splits)
    then show ?thesis by (auto simp: is_word_def)
  next
    case False
    then have "u_caseless U 115 c"
      using c by (simp add: ci_def is_ascii_letter_def ascii_lower_def)
    then show ?thesis using U False by (simp add: is_word_def)
  qed
  moreover have "\<not> is_word U 45"
    by (simp add: is_word_def)
  ultimately have b: "at_word (is_word U) (Some 45) \<noteq> at_word (is_word U) (next_char ys)"
    by (simp add: at_word_def next_char_def ys)
  have "ends (Seq (WordB (is_word U)) (Seq (ilit U (115 # w)) R)) (Some 45, ys)
          = ends (Seq (ilit U (115 # w)) R) (Some 45, ys)"
    using b by (simp del: ends.simps add: ends.simps(3) [of "WordB (is_word U)"] ends.simps(9))
  then show ?thesis
    using e by (simp del: ends.simps)
qed

lemma pre_seed_at:
  assumes U: "\<forall>c. 128 \<le> c \<and> u_caseless U 115 c \<longrightarrow> u_word U c"
    and m: "match_at (funding_rx U (str ''pre-seed'')) (pv, ys) \<noteq> []"
  shows "\<exists>c1 c2 c3 ys2. ys = c1 # c2 # c3 # 45 # ys2
           \<and> match_at (funding_rx U (str ''seed'')) (Some 45, ys2) \<noteq> []"
proof -
  let ?R = "Seq (WordB (is_word U)) Eps"
  let ?w = "[101, 101, 100] @ str '' funding''"
  have pre: "str ''pre-seed'' @ str '' funding'' = 112 # 114 # 101 # 45 # 115 # ?w"
    and seed: "str ''seed'' @ str '' funding'' = 115 # ?w"
    by (simp_all add: str_def)
  have "ends (Seq (WordB (is_word U)) (Seq (ilit U (112 # 114 # 101 # 45 # 115 # ?w)) ?R))
          (pv, ys) \<noteq> []"
    using m unfolding funding_rx_def pre by simp
  then have "ends (Seq (ilit U (112 # 114 # 101 # 45 # 115 # ?w)) ?R) (pv, ys) \<noteq> []"
    by (simp del: ends.simps
          add: ends.simps(3) [of "WordB (is_word U)"] ends.simps(9) split: if_splits)
  then obtain c1 c2 c3 ys2 where ys: "ys = c1 # c2 # c3 # 45 # ys2"
    and e: "ends (Seq (ilit U (115 # ?w)) ?R) (Some 45, ys2) \<noteq> []"
    using pre_seed_step by blast
  have "ends (Seq (WordB (is_word U)) (Seq (ilit U (115 # ?w)) ?R)) (Some 45, ys2) \<noteq> []"
    using U e by (rule seed_boundary)
  then have "match_at (funding_rx U (str ''seed'')) (Some 45, ys2) \<noteq> []"
    unfolding funding_rx_def seed by simp
  with ys show ?thesis by blast
qed

lemma cursors_head: "(prev, s) \<in> set (cursors prev s)"
  by (cases s) simp_all

lemma cursors_advance:
  "(pv, c # ys) \<in> set (cursors prev s) \<Longrightarrow> (Some c, ys) \<in> set (cursors prev s)"
proof (induction s arbitrary: prev)
  case Nil
  then show ?case by simp
next
  case (Cons x xs)
  then show ?case
    using cursors_head [of "Some x" xs] by auto
qed

lemma occurs_pre_seed:
  assumes U: "\<forall>c. 128 \<le> c \<and> u_caseless U 115 c \<longrightarrow> u_word U c"
    and o: "occurs (funding_rx U (str ''pre-seed'')) s"
  shows "occurs (funding_rx U (str ''seed'')) s"
proof -
  obtain pv ys where cur: "(pv, ys) \<in> set (cursors None s)"
    and m: "match_at (funding_rx U (str ''pre-seed'')) (pv, ys) \<noteq> []"
    using o by (auto simp: occurs_def list_ex_iff)
  obtain c1 c2 c3 ys2 where ys: "ys = c1 # c2 # c3 # 45 # ys2"
    and m2: "match_at (funding_rx U (str ''seed'')) (Some 45, ys2) \<noteq> []"
    using pre_seed_at [OF U m] by blast
  have "(Some c1, c2 # c3 # 45 # ys2) \<in> set (cursors None s)"
    using cur ys cursors_advance by blast
  then have "(Some c2, c3 # 45 # ys2) \<in> set (cursors None s)"
    using cursors_advance by blast
  then have "(Some c3, 45 # ys2) \<in> set (cursors None s)"
    using cursors_advance by blast
  then have "(Some 45, ys2) \<in> set (cursors None s)"
    using cursors_advance by blast
  then show ?thesis
    using m2 by (auto simp: occurs_def list_ex_iff)
qed

lemma funding_type_loop_range:
  "funding_type_loop U s fts current \<in> insert current (str_title ` set fts)"
  by (induction fts) auto

text \<open>
  C10. For every text the funding type that \<open>extract_info_from_text\<close> returns is never
  \<^verbatim>\<open>Pre-Seed\<close>, because wherever the pattern for \<^verbatim>\<open>pre-seed\<close> is found the pattern for
  \<^verbatim>\<open>seed\<close>, which is tried first, is found as well: it matches four characters further
  on, after the hyphen, where a word boundary lies. The Unicode tables enter in one
  place: a non-ASCII character that matches the letter s when case is ignored (in
  Unicode the long s, U+017F) is a word character.
\<close>

theorem never_pre_seed:
  assumes "\<forall>c. 128 \<le> c \<and> u_caseless U 115 c \<longrightarrow> u_word U c"
  shows "funding_type (extract_info_from_text U s) \<noteq> str ''Pre-Seed''
         \<and> (re_search (funding_rx U (str ''pre-seed'')) s \<noteq> None
              \<longrightarrow> re_search (funding_rx U (str ''seed'')) s \<noteq> None)"
proof -
  have imp: "re_search (funding_rx U (str ''pre-seed'')) s \<noteq> None
               \<longrightarrow> re_search (funding_rx U (str ''seed'')) s \<noteq> None"
    using occurs_pre_seed [OF assms] by (auto simp: re_search_None)
  let ?rest = "[str ''series a'', str ''series b'', str ''series c'', str ''venture'',
                str ''angel'', str ''growth'', str ''bridge'']"
  have ft: "funding_type (extract_info_from_text U s)
              = funding_type_loop U s (str ''seed'' # str ''pre-seed'' # ?rest) (str ''undefined'')"
    by (simp add: extract_info_from_text_def funding_types_def)
  have out: "str ''Pre-Seed'' \<notin> insert (str ''undefined'') (str_title ` set ?rest)"
    by (simp add: str_title_def str_def is_ascii_letter_def ascii_lower_def)
  have seed: "str_title (str ''seed'') \<noteq> str ''Pre-Seed''"
    by (simp add: str_title_def str_def is_ascii_letter_def ascii_lower_def)
  have "funding_type (extract_info_from_text U s) \<noteq> str ''Pre-Seed''"
  proof (cases "re_search (funding_rx U (str ''seed'')) s = None")
    case False
    then show ?thesis using seed by (simp add: ft)
  next
    case True
    then have "re_search (funding_rx U (str ''pre-seed'')) s = None"
      using imp by blast
    then have "funding_type (extract_info_from_text U s)
                 = funding_type_loop U s ?rest (str ''undefined'')"
      using True by (simp add: ft)
    then show ?thesis
      using funding_type_loop_range [of U s ?rest "str ''undefined''"] out by metis
  qed
  then show ?thesis using imp by blast
qed

theorem never_pre_seed_witness:
  "funding_type (extract_info_from_text ascii_only (str ''Acme raises pre-seed funding''))
     = str ''Seed''
   \<and> funding_type (extract_info_from_text ascii_only (str ''Acme raises pre-seed funding''))
     \<noteq> str ''Pre-Seed''
   \<and> re_search (funding_rx ascii_only (str ''pre-seed'')) (str ''Acme raises pre-seed funding'')
     \<noteq> None
   \<and> re_search (funding_rx ascii_only (str ''seed'')) (str ''Acme raises pre-seed funding'')
     \<noteq> None"
proof -
  have U: "\<forall>c. 128 \<le> c \<and> u_caseless ascii_only 115 c \<longrightarrow> u_word ascii_only c"
    by (simp add: ascii_only_def)
  have p: "re_search (funding_rx ascii_only (str ''pre-seed'')) (str ''Acme raises pre-seed funding'')
             \<noteq> None"
    by (simp add: rx_defs)
  have t: "funding_type (extract_info_from_text ascii_only (str ''Acme raises pre-seed funding''))
             = str ''Seed''"
    by (simp add: extract_info_from_text_def funding_types_def rx_defs str_title_def)
  show ?thesis
    using never_pre_seed [OF U, of "str ''Acme raises pre-seed funding''"] p t by simp
qed


end
